theory Spec2Isabelle
  imports Main "HOL-Library.Word" "HOL-Library.Signed_Division"
begin

unbundle bit_operations_syntax

section \<open>Data model of \<^verbatim>\<open>main.c\<close>\<close>

text \<open>
  \<^verbatim>\<open>int\<close> is the 32-bit two's complement integer: a \<open>32 word\<close> read with \<open>sint\<close> and
  compared with the signed orders \<open>\<le>s\<close> and \<open><s\<close>. Signed overflow, undefined in C, is
  the wrap-around of the word operations. \<^verbatim>\<open>Color\<close> is \<^verbatim>\<open>uint32_t\<close>. Counters of type
  \<^verbatim>\<open>size_t\<close>, and the \<^verbatim>\<open>int\<close> counters of \<^verbatim>\<open>RenderVoronoi\<close> that run from 0 to a
  macro, are natural numbers.
\<close>

type_synonym c_int = "32 word"
type_synonym Color = "32 word"
type_synonym uint8 = "8 word"
type_synonym uint16 = "16 word"

text \<open>The struct \<^verbatim>\<open>Vec2 { int x, y; }\<close>; the fields are \<open>vx\<close> and \<open>vy\<close> here.\<close>

record Vec2 =
  vx :: c_int
  vy :: c_int

text \<open>
  The macros \<^verbatim>\<open>WIDTH\<close> and \<^verbatim>\<open>HEIGHT\<close> are the fields of a configuration, so that the
  functions can be run on small rasters; \<open>source_config\<close> holds the values of the source.
  \<^verbatim>\<open>SEEDS_COUNT\<close> is the length of the array \<^verbatim>\<open>seeds\<close>.
\<close>

record config =
  WIDTH :: nat
  HEIGHT :: nat

definition source_config :: config where
  "source_config = \<lparr>WIDTH = 1000, HEIGHT = 1000\<rparr>"

definition COLOR_BLACK :: Color where
  "COLOR_BLACK = 0xFF000000"

definition COLOR_BACKGROUND :: Color where
  "COLOR_BACKGROUND = 0xFF201717"

definition SEED_MARKER_RADIUS :: c_int where
  "SEED_MARKER_RADIUS = 4"

definition SEED_MARKER_COLOR :: Color where
  "SEED_MARKER_COLOR = COLOR_BLACK"

definition OUTPUT_FILE_PATH :: string where
  "OUTPUT_FILE_PATH = ''output.ppm''"

text \<open>
  The static array \<^verbatim>\<open>image[HEIGHT][WIDTH]\<close> is a store from a row and a column to a
  colour; \<^verbatim>\<open>image[r][c]\<close> is \<open>img r c\<close>. The static array \<^verbatim>\<open>seeds[SEEDS_COUNT]\<close> is a list.
\<close>

type_synonym image = "nat \<Rightarrow> nat \<Rightarrow> Color"

abbreviation SEEDS_COUNT :: "Vec2 list \<Rightarrow> nat" where
  "SEEDS_COUNT seeds \<equiv> length seeds"

text \<open>
  What ends a run of the source other than a return: an access outside an array, a failed
  \<^verbatim>\<open>assert\<close>, a null stream handed to \<^verbatim>\<open>fprintf\<close>, a division by zero, and \<^verbatim>\<open>exit\<close> with
  its status and the text written to \<^verbatim>\<open>stderr\<close>.
\<close>

datatype error =
    OutOfBounds
  | AssertionFailed
  | NullStream
  | DivisionByZero
  | Exit nat string

text \<open>A write \<^verbatim>\<open>image[r][c] = v\<close> and a read \<^verbatim>\<open>seeds[i]\<close>, each inside its array or an error.\<close>

definition image_set :: "config \<Rightarrow> image \<Rightarrow> nat \<Rightarrow> nat \<Rightarrow> Color \<Rightarrow> error + image" where
  "image_set cfg img r c v =
     (if r < HEIGHT cfg \<and> c < WIDTH cfg then Inr (img(r := (img r)(c := v)))
      else Inl OutOfBounds)"

definition seeds_get :: "Vec2 list \<Rightarrow> nat \<Rightarrow> error + Vec2" where
  "seeds_get seeds i = (if i < length seeds then Inr (seeds ! i) else Inl OutOfBounds)"

section \<open>Loops\<close>

text \<open>A \<^verbatim>\<open>for\<close> loop over the indices of a list, stopping at the first error.\<close>

fun for_each :: "nat list \<Rightarrow> (nat \<Rightarrow> 's \<Rightarrow> error + 's) \<Rightarrow> 's \<Rightarrow> error + 's" where
  "for_each [] body s = Inr s"
| "for_each (i # is) body s =
     (case body i s of Inl e \<Rightarrow> Inl e | Inr s' \<Rightarrow> for_each is body s')"

text \<open>
  \<^verbatim>\<open>for (int i = b; i < e; ++i)\<close> on 32-bit integers, with the signed comparison of the
  source. A \<^verbatim>\<open>continue\<close> in the body is a body that returns its state unchanged.
\<close>

function for_int :: "c_int \<Rightarrow> c_int \<Rightarrow> (c_int \<Rightarrow> 's \<Rightarrow> error + 's) \<Rightarrow> 's \<Rightarrow> error + 's" where
  "for_int i e body s =
     (if i <s e then
        (case body i s of Inl err \<Rightarrow> Inl err | Inr s' \<Rightarrow> for_int (i + 1) e body s')
      else Inr s)"
  by pat_completeness auto
termination
proof (relation "measure (\<lambda>(i, e, body, s). nat (sint e - sint i))")
  show "wf (measure (\<lambda>(i :: c_int, e :: c_int, body :: c_int \<Rightarrow> 's \<Rightarrow> error + 's, s :: 's).
              nat (sint e - sint i)))"
    by simp
next
  fix i e :: c_int and body :: "c_int \<Rightarrow> 's \<Rightarrow> error + 's" and s s' :: 's
  assume "i <s e"
  then have less: "sint i < sint e"
    by (simp add: word_sless_alt)
  have "sint e < 2 ^ 31" "- (2 ^ 31) \<le> sint i"
    using sint_lt [of e] sint_ge [of i] by simp_all
  with less have "signed_take_bit 31 (sint i + 1) = sint i + 1"
    by (intro signed_take_bit_int_eq_self) auto
  then have "sint (i + 1) = sint i + 1"
    by (simp add: sint_word_ariths)
  with less show "((i + 1, e, body, s'), (i, e, body, s))
      \<in> measure (\<lambda>(i, e, body, s). nat (sint e - sint i))"
    by simp
qed

declare for_int.simps [simp del]

section \<open>The functions of the source\<close>

text \<open>
  \<^verbatim>\<open>FillImage\<close>: the outer counter is \<^verbatim>\<open>y\<close>, the inner one \<^verbatim>\<open>x\<close>, and the write is
  \<^verbatim>\<open>image[x][y]\<close>: row \<^verbatim>\<open>x\<close>, column \<^verbatim>\<open>y\<close>.
\<close>

definition FillImage :: "config \<Rightarrow> Color \<Rightarrow> image \<Rightarrow> error + image" where
  "FillImage cfg color img =
     for_each [0..<HEIGHT cfg] (\<lambda>y img.
       for_each [0..<WIDTH cfg] (\<lambda>x img. image_set cfg img x y color) img) img"

text \<open>The same fill with the indexing of the render and save routines, \<^verbatim>\<open>image[y][x]\<close>.\<close>

definition FillImage_row_major :: "config \<Rightarrow> Color \<Rightarrow> image \<Rightarrow> error + image" where
  "FillImage_row_major cfg color img =
     for_each [0..<HEIGHT cfg] (\<lambda>y img.
       for_each [0..<WIDTH cfg] (\<lambda>x img. image_set cfg img y x color) img) img"

definition SquareDistance :: "Vec2 \<Rightarrow> Vec2 \<Rightarrow> c_int" where
  "SquareDistance a b =
     (let dx = vx a - vx b;
          dy = vy a - vy b
      in dx * dx + dy * dy)"

definition FillCircle :: "config \<Rightarrow> Vec2 \<Rightarrow> c_int \<Rightarrow> Color \<Rightarrow> image \<Rightarrow> error + image" where
  "FillCircle cfg origin radius color img =
     (let beginCorner = \<lparr>vx = vx origin - radius, vy = vy origin - radius\<rparr>;
          endCorner = \<lparr>vx = vx origin + radius, vy = vy origin + radius\<rparr>
      in for_int (vx beginCorner) (vx endCorner) (\<lambda>x img.
           if \<not> (0 \<le>s x \<and> x <s of_nat (WIDTH cfg)) then Inr img
           else for_int (vy beginCorner) (vy endCorner) (\<lambda>y img.
                  if \<not> (0 \<le>s y \<and> y <s of_nat (HEIGHT cfg)) then Inr img
                  else (let point = \<lparr>vx = x, vy = y\<rparr>
                        in if SquareDistance origin point \<le>s radius * radius
                           then image_set cfg img (unat y) (unat x) color
                           else Inr img)) img) img)"

text \<open>
  \<^verbatim>\<open>rand()\<close> of the C library: the generator is the stream of the values it will return,
  and a call takes the first one.
\<close>

type_synonym rng = "nat \<Rightarrow> c_int"

definition rand :: "rng \<Rightarrow> c_int \<times> rng" where
  "rand g = (g 0, \<lambda>n. g (Suc n))"

text \<open>\<^verbatim>\<open>a % b\<close> on \<^verbatim>\<open>int\<close>: the remainder of the division that truncates towards zero.\<close>

definition c_mod :: "c_int \<Rightarrow> c_int \<Rightarrow> error + c_int" where
  "c_mod a b = (if b = 0 then Inl DivisionByZero else Inr (word_of_int (sint a smod sint b)))"

definition GenerateRandomSeeds :: "config \<Rightarrow> rng \<times> Vec2 list \<Rightarrow> error + rng \<times> Vec2 list" where
  "GenerateRandomSeeds cfg st =
     for_each [0..<SEEDS_COUNT (snd st)] (\<lambda>i (g, seeds).
       (let (r1, g1) = rand g in
        case c_mod r1 (of_nat (WIDTH cfg)) of Inl e \<Rightarrow> Inl e | Inr px \<Rightarrow>
          (let seeds1 = seeds[i := (seeds ! i)\<lparr>vx := px\<rparr>];
               (r2, g2) = rand g1 in
           (case c_mod r2 (of_nat (HEIGHT cfg)) of Inl e \<Rightarrow> Inl e | Inr py \<Rightarrow>
              Inr (g2, seeds1[i := (seeds1 ! i)\<lparr>vy := py\<rparr>]))))) st"

definition RenderSeedMarkers :: "config \<Rightarrow> Vec2 list \<Rightarrow> image \<Rightarrow> error + image" where
  "RenderSeedMarkers cfg seeds img =
     for_each [0..<SEEDS_COUNT seeds] (\<lambda>i img.
       case seeds_get seeds i of Inl e \<Rightarrow> Inl e
       | Inr s \<Rightarrow> FillCircle cfg s SEED_MARKER_RADIUS SEED_MARKER_COLOR img) img"

text \<open>
  \<^verbatim>\<open>SeedToColor\<close>: the four assertions, the two conversions to \<^verbatim>\<open>uint16_t\<close>, and the
  shift and exclusive or on the promoted values, converted to \<^verbatim>\<open>Color\<close>.
\<close>

definition SeedToColor :: "Vec2 \<Rightarrow> error + Color" where
  "SeedToColor point =
     (if \<not> (0 \<le>s vx point) then Inl AssertionFailed
      else if \<not> (0 \<le>s vy point) then Inl AssertionFailed
      else if \<not> (vx point <s push_bit 16 1) then Inl AssertionFailed
      else if \<not> (vy point <s push_bit 16 1) then Inl AssertionFailed
      else (let lf = (ucast (vx point) :: uint16);
                rg = (ucast (vy point) :: uint16)
            in Inr (push_bit 16 (ucast lf) XOR ucast rg)))"

text \<open>The innermost loop of \<^verbatim>\<open>RenderVoronoi\<close>, from \<^verbatim>\<open>closestSeedIdx = 0\<close> on.\<close>

definition closest_seed :: "Vec2 list \<Rightarrow> Vec2 \<Rightarrow> error + nat" where
  "closest_seed seeds point =
     for_each [1..<SEEDS_COUNT seeds] (\<lambda>i closestSeedIdx.
       case seeds_get seeds i of Inl e \<Rightarrow> Inl e | Inr si \<Rightarrow>
         (case seeds_get seeds closestSeedIdx of Inl e \<Rightarrow> Inl e | Inr sc \<Rightarrow>
            (let currDist = SquareDistance si point;
                 closestDist = SquareDistance sc point
             in Inr (if currDist <s closestDist then i else closestSeedIdx)))) 0"

text \<open>
  The body of the two outer loops of \<^verbatim>\<open>RenderVoronoi\<close> for the pixel \<^verbatim>\<open>(x, y)\<close>:
  \<open>pixel_color\<close> is the value of \<^verbatim>\<open>SeedToColor(seedPos)\<close>, and \<open>render_pixel\<close> stores it
  in \<^verbatim>\<open>image[y][x]\<close>.
\<close>

definition pixel_color :: "Vec2 list \<Rightarrow> nat \<Rightarrow> nat \<Rightarrow> error + Color" where
  "pixel_color seeds y x =
     (let point = \<lparr>vx = of_nat x, vy = of_nat y\<rparr> in
      case closest_seed seeds point of Inl e \<Rightarrow> Inl e | Inr closestSeedIdx \<Rightarrow>
        (case seeds_get seeds closestSeedIdx of Inl e \<Rightarrow> Inl e | Inr sc \<Rightarrow>
           (let seedPos = \<lparr>vx = vx sc, vy = vy sc\<rparr> in SeedToColor seedPos)))"

definition render_pixel :: "config \<Rightarrow> Vec2 list \<Rightarrow> nat \<Rightarrow> nat \<Rightarrow> image \<Rightarrow> error + image" where
  "render_pixel cfg seeds y x img =
     (case pixel_color seeds y x of Inl e \<Rightarrow> Inl e | Inr c \<Rightarrow> image_set cfg img y x c)"

definition RenderVoronoi :: "config \<Rightarrow> Vec2 list \<Rightarrow> image \<Rightarrow> error + image" where
  "RenderVoronoi cfg seeds img =
     for_each [0..<HEIGHT cfg] (\<lambda>y img.
       for_each [0..<WIDTH cfg] (\<lambda>x img. render_pixel cfg seeds y x img) img) img"

subsection \<open>Writing the file\<close>

text \<open>
  A \<^verbatim>\<open>FILE *\<close> is \<open>NULL\<close> or an open stream with the bytes written to it so far. Writing
  to an open stream succeeds; \<^verbatim>\<open>fprintf\<close> on \<open>NULL\<close> is undefined and ends the run.
\<close>

datatype stream = NULL | Open "uint8 list"

definition fprintf :: "stream \<Rightarrow> string \<Rightarrow> error + stream" where
  "fprintf file text =
     (case file of NULL \<Rightarrow> Inl NullStream
      | Open bytes \<Rightarrow> Inr (Open (bytes @ map of_char text)))"

definition fwrite :: "uint8 list \<Rightarrow> stream \<Rightarrow> error + stream" where
  "fwrite bytes file =
     (case file of NULL \<Rightarrow> Inl NullStream
      | Open written \<Rightarrow> Inr (Open (written @ bytes)))"

definition fclose :: "stream \<Rightarrow> error + uint8 list" where
  "fclose file = (case file of NULL \<Rightarrow> Inl NullStream | Open written \<Rightarrow> Inr written)"

text \<open>The conversion \<^verbatim>\<open>%d\<close> of a value that is not negative.\<close>

fun show_dec :: "nat \<Rightarrow> string" where
  "show_dec n =
     (if n < 10 then [''0123456789'' ! n]
      else show_dec (n div 10) @ [''0123456789'' ! (n mod 10)])"

declare show_dec.simps [simp del]

definition pixel_bytes :: "Color \<Rightarrow> uint8 list" where
  "pixel_bytes pixel =
     [ucast (drop_bit (8 * 0) (pixel AND 0x0000FF)),
      ucast (drop_bit (8 * 1) (pixel AND 0x00FF00)),
      ucast (drop_bit (8 * 2) (pixel AND 0xFF0000))]"

text \<open>
  \<^verbatim>\<open>SaveImageAsPPM\<close>: \<open>file\<close> is what \<^verbatim>\<open>fopen(filePath, "wb")\<close> returned and \<open>oserror\<close> the
  text of \<^verbatim>\<open>strerror(errno)\<close>. The two header lines are printed before the test of
  \<^verbatim>\<open>file == NULL\<close>, as in the source. The result is the content of the file at \<^verbatim>\<open>fclose\<close>.
\<close>

definition SaveImageAsPPM :: "config \<Rightarrow> image \<Rightarrow> string \<Rightarrow> stream \<Rightarrow> string \<Rightarrow> error + uint8 list" where
  "SaveImageAsPPM cfg img filePath file oserror =
     (case fprintf file ''P6\<newline>'' of Inl e \<Rightarrow> Inl e | Inr file1 \<Rightarrow>
       (case fprintf file1 (show_dec (WIDTH cfg) @ '' '' @ show_dec (HEIGHT cfg) @ '' 255\<newline>'') of
          Inl e \<Rightarrow> Inl e
        | Inr file2 \<Rightarrow>
            if file2 = NULL then
              Inl (Exit 1 (''ERROR: cannot write into file '' @ filePath @ '': '' @ oserror @ ''\<newline>''))
            else
              (case for_each [0..<HEIGHT cfg] (\<lambda>y f.
                      for_each [0..<WIDTH cfg] (\<lambda>x f.
                        (let pixel = img y x in fwrite (pixel_bytes pixel) f)) f) file2 of
                 Inl e \<Rightarrow> Inl e
               | Inr file3 \<Rightarrow> fclose file3)))"

text \<open>
  \<^verbatim>\<open>main\<close>: the generator after \<^verbatim>\<open>srand(time(0))\<close>, the two static arrays as they are at
  the start, and the outcome of \<^verbatim>\<open>fopen\<close> are the inputs.
\<close>

definition main :: "config \<Rightarrow> rng \<Rightarrow> image \<Rightarrow> Vec2 list \<Rightarrow> stream \<Rightarrow> string \<Rightarrow> error + uint8 list" where
  "main cfg g img seeds file oserror =
     (case FillImage cfg COLOR_BACKGROUND img of Inl e \<Rightarrow> Inl e | Inr img1 \<Rightarrow>
       (case GenerateRandomSeeds cfg (g, seeds) of Inl e \<Rightarrow> Inl e | Inr (g1, seeds1) \<Rightarrow>
          (case RenderVoronoi cfg seeds1 img1 of Inl e \<Rightarrow> Inl e | Inr img2 \<Rightarrow>
             (case RenderSeedMarkers cfg seeds1 img2 of Inl e \<Rightarrow> Inl e | Inr img3 \<Rightarrow>
                SaveImageAsPPM cfg img3 OUTPUT_FILE_PATH file oserror))))"

section \<open>Notions used to state the properties\<close>

text \<open>The squared Euclidean distance of two points, on the integers they denote.\<close>

definition sq_dist :: "Vec2 \<Rightarrow> Vec2 \<Rightarrow> int" where
  "sq_dist a b = (sint (vx a) - sint (vx b))\<^sup>2 + (sint (vy a) - sint (vy b))\<^sup>2"

text \<open>The index that the innermost loop of \<^verbatim>\<open>RenderVoronoi\<close> ends with for the pixel \<^verbatim>\<open>(x, y)\<close>.\<close>

definition winner :: "Vec2 list \<Rightarrow> nat \<Rightarrow> nat \<Rightarrow> nat" where
  "winner seeds y x =
     (case closest_seed seeds \<lparr>vx = of_nat x, vy = of_nat y\<rparr> of Inl e \<Rightarrow> 0 | Inr k \<Rightarrow> k)"

text \<open>A seed inside the raster: the invariant of the seeds that the specification states.\<close>

definition in_raster :: "config \<Rightarrow> Vec2 \<Rightarrow> bool" where
  "in_raster cfg s \<longleftrightarrow>
     0 \<le> sint (vx s) \<and> sint (vx s) < int (WIDTH cfg) \<and>
     0 \<le> sint (vy s) \<and> sint (vy s) < int (HEIGHT cfg)"

text \<open>The colour rebuilt from the three bytes of a pixel in the file, first byte lowest.\<close>

definition reassemble :: "uint8 list \<Rightarrow> Color" where
  "reassemble bs = ucast (bs ! 0) OR push_bit 8 (ucast (bs ! 1)) OR push_bit 16 (ucast (bs ! 2))"

text \<open>The two header lines of the file, as bytes.\<close>

definition ppm_header :: "config \<Rightarrow> uint8 list" where
  "ppm_header cfg =
     map of_char (''P6\<newline>'' @ show_dec (WIDTH cfg) @ '' '' @ show_dec (HEIGHT cfg) @ '' 255\<newline>'')"

text \<open>The pixels of the buffer as they follow the header: row by row, three bytes each.\<close>

definition pixel_data :: "config \<Rightarrow> image \<Rightarrow> uint8 list" where
  "pixel_data cfg img =
     concat (map (\<lambda>y. concat (map (\<lambda>x. pixel_bytes (img y x)) [0..<WIDTH cfg])) [0..<HEIGHT cfg])"

text \<open>
  The pixels \<^verbatim>\<open>image[r][c]\<close> that \<^verbatim>\<open>FillCircle\<close> stores into: column \<open>c\<close> and row \<open>r\<close> are
  values that the two counters take, pass both bounds tests and the distance test.
\<close>

definition painted :: "config \<Rightarrow> Vec2 \<Rightarrow> c_int \<Rightarrow> nat \<Rightarrow> nat \<Rightarrow> bool" where
  "painted cfg origin radius r c =
     (c < 2 ^ 31 \<and> r < 2 ^ 31 \<and>
      (let x = (of_nat c :: c_int); y = (of_nat r :: c_int)
       in vx origin - radius \<le>s x \<and> x <s vx origin + radius \<and> x <s of_nat (WIDTH cfg) \<and>
          vy origin - radius \<le>s y \<and> y <s vy origin + radius \<and> y <s of_nat (HEIGHT cfg) \<and>
          SquareDistance origin \<lparr>vx = x, vy = y\<rparr> \<le>s radius * radius))"

text \<open>The raster and the seeds of the end-to-end scenario of the specification.\<close>

definition scenario_config :: config where
  "scenario_config = \<lparr>WIDTH = 10, HEIGHT = 10\<rparr>"

definition scenario_seeds :: "Vec2 list" where
  "scenario_seeds = [\<lparr>vx = 2, vy = 2\<rparr>, \<lparr>vx = 7, vy = 7\<rparr>]"

section \<open>32-bit integers\<close>

text \<open>
  Where the value of an \<^verbatim>\<open>int\<close> stays inside \<open>[-2\<^sup>3\<^sup>1, 2\<^sup>3\<^sup>1)\<close>, the word operations are the
  operations on the integers.
\<close>

lemma sint_nonneg_uint:
  fixes w :: c_int
  assumes "0 \<le> sint w"
  shows "uint w = sint w"
proof -
  have "sint w < 2 ^ 32"
    using sint_lt [of w] by simp
  with assms have "take_bit 32 (sint w) = sint w"
    by (simp add: take_bit_int_eq_self)
  then show ?thesis
    using uint_sint [of w] by simp
qed

lemma sint_in_range:
  fixes k :: int
  assumes "- (2 ^ 31) \<le> k" "k < 2 ^ 31"
  shows "sint (word_of_int k :: c_int) = k"
  using assms by (simp add: sint_sbintrunc' signed_take_bit_int_eq_self)

lemma sint_of_nat_small:
  assumes "n < 2 ^ 31"
  shows "sint (of_nat n :: c_int) = int n"
  using assms sint_in_range [of "int n"] by simp

lemma sint_sub:
  fixes a b :: c_int
  assumes "- (2 ^ 31) \<le> sint a - sint b" "sint a - sint b < 2 ^ 31"
  shows "sint (a - b) = sint a - sint b"
  using assms by (simp add: sint_word_ariths signed_take_bit_int_eq_self)

lemma sint_add:
  fixes a b :: c_int
  assumes "- (2 ^ 31) \<le> sint a + sint b" "sint a + sint b < 2 ^ 31"
  shows "sint (a + b) = sint a + sint b"
  using assms by (simp add: sint_word_ariths signed_take_bit_int_eq_self)

lemma sint_mult:
  fixes a b :: c_int
  assumes "- (2 ^ 31) \<le> sint a * sint b" "sint a * sint b < 2 ^ 31"
  shows "sint (a * b) = sint a * sint b"
  using assms by (simp add: sint_word_ariths signed_take_bit_int_eq_self)

text \<open>
  Coordinates from 0 to 32767 keep \<^verbatim>\<open>SquareDistance\<close> inside \<^verbatim>\<open>int\<close>: it is the squared
  Euclidean distance.
\<close>

lemma abs_less_square:
  fixes d :: int
  assumes "\<bar>d\<bar> < 32768"
  shows "0 \<le> d * d" "d * d < 1073741824"
proof -
  show "0 \<le> d * d"
    by simp
  have "\<bar>d\<bar> * \<bar>d\<bar> \<le> 32767 * 32767"
    using assms by (intro mult_mono) simp_all
  then show "d * d < 1073741824"
    by simp
qed

lemma sint_square:
  fixes w :: c_int
  assumes "\<bar>sint w\<bar> < 32768"
  shows "sint (w * w) = sint w * sint w" "0 \<le> sint (w * w)" "sint (w * w) < 1073741824"
proof -
  note sq = abs_less_square [OF assms]
  have "- (2 ^ 31) \<le> (0 :: int)"
    by simp
  then have "- (2 ^ 31) \<le> sint w * sint w"
    using sq(1) by (rule order_trans)
  moreover have "sint w * sint w < 2 ^ 31"
    using sq(2) by simp
  ultimately
  show eq: "sint (w * w) = sint w * sint w"
    by (rule sint_mult)
  show "0 \<le> sint (w * w)" "sint (w * w) < 1073741824"
    unfolding eq using sq by simp_all
qed

lemma sint_SquareDistance:
  assumes a: "0 \<le> sint (vx a)" "sint (vx a) < 32768" "0 \<le> sint (vy a)" "sint (vy a) < 32768"
    and b: "0 \<le> sint (vx b)" "sint (vx b) < 32768" "0 \<le> sint (vy b)" "sint (vy b) < 32768"
  shows "sint (SquareDistance a b) = sq_dist a b"
proof -
  have dx: "sint (vx a - vx b) = sint (vx a) - sint (vx b)"
    and dy: "sint (vy a - vy b) = sint (vy a) - sint (vy b)"
    using a b by (simp_all add: sint_sub)
  have small: "\<bar>sint (vx a - vx b)\<bar> < 32768" "\<bar>sint (vy a - vy b)\<bar> < 32768"
    unfolding dx dy using a b by simp_all
  note xx = sint_square [OF small(1)] and yy = sint_square [OF small(2)]
  have "sint ((vx a - vx b) * (vx a - vx b) + (vy a - vy b) * (vy a - vy b)) =
      sint ((vx a - vx b) * (vx a - vx b)) + sint ((vy a - vy b) * (vy a - vy b))"
    using xx(2,3) yy(2,3) by (intro sint_add) simp_all
  then show ?thesis
    by (simp add: SquareDistance_def sq_dist_def Let_def xx(1) yy(1) dx dy power2_eq_square)
qed

text \<open>A coordinate from 0 to 65535 is not changed by the conversion to \<^verbatim>\<open>uint16_t\<close>.\<close>

lemma ucast16_id:
  fixes w :: c_int
  assumes "0 \<le>s w" "w <s 65536"
  shows "(ucast (ucast w :: uint16) :: c_int) = w"
proof -
  have "0 \<le> sint w" "sint w < 65536"
    using assms by (simp_all add: word_sle_eq word_sless_alt)
  then have "take_bit 16 (uint w) = uint w"
    using take_bit_int_eq_self [of "uint w" 16] by (simp add: sint_nonneg_uint)
  then have "uint (ucast (ucast w :: uint16) :: c_int) = uint w"
    by (simp add: unsigned_ucast_eq unsigned_take_bit_eq)
  then show ?thesis
    by (rule word_uint_eqI)
qed

lemma SeedToColor_ok:
  assumes "0 \<le>s vx p" "vx p <s 65536" "0 \<le>s vy p" "vy p <s 65536"
  shows "SeedToColor p = Inr (push_bit 16 (vx p) XOR vy p)"
  using assms by (simp add: SeedToColor_def ucast16_id)

lemma take_bit_16_id:
  fixes w :: c_int
  assumes "0 \<le>s w" "w <s 65536"
  shows "take_bit 16 w = w"
proof -
  have "0 \<le> sint w" "sint w < 65536"
    using assms by (simp_all add: word_sle_eq word_sless_alt)
  then have "take_bit 16 (uint w) = uint w"
    using take_bit_int_eq_self [of "uint w" 16] by (simp add: sint_nonneg_uint)
  then have "uint (take_bit 16 w) = uint w"
    by (simp add: unsigned_take_bit_eq)
  then show ?thesis
    by (rule word_uint_eqI)
qed

lemma square_le_radius:
  fixes a b r :: int
  assumes "a\<^sup>2 + b\<^sup>2 \<le> r\<^sup>2" "0 \<le> r"
  shows "a \<le> r" "b \<le> r"
proof -
  have "a\<^sup>2 \<le> r\<^sup>2" "b\<^sup>2 \<le> r\<^sup>2"
    using assms(1) zero_le_power2 [of a] zero_le_power2 [of b] by linarith+
  then have "\<bar>a\<bar> \<le> r" "\<bar>b\<bar> \<le> r"
    using assms(2) by (simp_all add: abs_le_square_iff [symmetric])
  then show "a \<le> r" "b \<le> r"
    by simp_all
qed

section \<open>Invariant rules for the loops\<close>

text \<open>
  A loop on \<^verbatim>\<open>int\<close> returns, with an invariant \<open>I\<close> of the set of the values that the counter
  has taken: it holds of the empty set at the start, each run of the body keeps it and
  returns, and at the end it holds of all the values from the first to the bound. The
  counter does not overflow, since it is below the bound when it is incremented.
\<close>

lemma sint_succ:
  fixes i e :: c_int
  assumes "i <s e"
  shows "sint (i + 1) = sint i + 1"
proof -
  have "sint i < sint e"
    using assms by (simp add: word_sless_alt)
  moreover have "sint e < 2 ^ 31" "- (2 ^ 31) \<le> sint i"
    using sint_lt [of e] sint_ge [of i] by simp_all
  ultimately have "signed_take_bit 31 (sint i + 1) = sint i + 1"
    by (intro signed_take_bit_int_eq_self) auto
  then show ?thesis
    by (simp add: sint_word_ariths)
qed

lemma sint_inject: "sint (a :: c_int) = sint b \<Longrightarrow> a = b"
  by (rule signed_word_eqI)

lemma range_split:
  fixes i e :: c_int
  assumes "i <s e"
  shows "{j. i \<le>s j \<and> j <s e} = insert i {j. i + 1 \<le>s j \<and> j <s e}"
proof -
  have *: "i \<le>s j \<longleftrightarrow> j = i \<or> i + 1 \<le>s j" for j
  proof -
    have "sint i \<le> sint j \<longleftrightarrow> sint j = sint i \<or> sint i + 1 \<le> sint j"
      by auto
    then show ?thesis
      using sint_inject [of j i] by (auto simp: word_sle_eq sint_succ [OF assms])
  qed
  show ?thesis
    using assms by (auto simp: *)
qed

lemma for_int_rule_aux:
  "\<forall>I. I {} s \<longrightarrow>
       (\<forall>D j t. I D t \<longrightarrow> i \<le>s j \<longrightarrow> j <s e \<longrightarrow> (\<exists>t'. body j t = Inr t' \<and> I (insert j D) t')) \<longrightarrow>
       (\<exists>s'. for_int i e body s = Inr s' \<and> I {j. i \<le>s j \<and> j <s e} s')"
proof (induction i e body s rule: for_int.induct)
  case (1 i e body s)
  show ?case
  proof (intro allI impI)
    fix I :: "c_int set \<Rightarrow> 'a \<Rightarrow> bool"
    assume init: "I {} s"
      and step: "\<forall>D j t. I D t \<longrightarrow> i \<le>s j \<longrightarrow> j <s e \<longrightarrow> (\<exists>t'. body j t = Inr t' \<and> I (insert j D) t')"
    show "\<exists>s'. for_int i e body s = Inr s' \<and> I {j. i \<le>s j \<and> j <s e} s'"
    proof (cases "i <s e")
      case False
      then have empty: "{j. i \<le>s j \<and> j <s e} = {}"
        by (auto simp: word_sle_eq word_sless_alt)
      have "for_int i e body s = Inr s"
        using False by (subst for_int.simps) simp
      with init show ?thesis
        by (simp only: empty) simp
    next
      case True
      have "\<exists>t'. body i s = Inr t' \<and> I {i} t'"
        using step [rule_format, of "{}" s i] init True by simp
      then obtain t where t: "body i s = Inr t" "I {i} t"
        by auto
      have less: "i \<le>s j" if "i + 1 \<le>s j" for j
        using that sint_succ [OF True] by (simp add: word_sle_eq)
      have step': "\<forall>D j u. I (insert i D) u \<longrightarrow> i + 1 \<le>s j \<longrightarrow> j <s e \<longrightarrow>
          (\<exists>t'. body j u = Inr t' \<and> I (insert i (insert j D)) t')"
      proof (intro allI impI)
        fix D j u
        assume "I (insert i D) u" "i + 1 \<le>s j" "j <s e"
        then have "\<exists>t'. body j u = Inr t' \<and> I (insert j (insert i D)) t'"
          using step [rule_format, of "insert i D" u j] less by simp
        then show "\<exists>t'. body j u = Inr t' \<and> I (insert i (insert j D)) t'"
          by (simp only: insert_commute [of i j D])
      qed
      have "\<exists>s'. for_int (i + 1) e body t = Inr s' \<and> I (insert i {j. i + 1 \<le>s j \<and> j <s e}) s'"
        by (rule "1.IH" [OF True t(1), THEN spec, of "\<lambda>D. I (insert i D)",
              THEN mp, THEN mp, OF t(2) step'])
      then obtain s' where s': "for_int (i + 1) e body t = Inr s'"
        "I (insert i {j. i + 1 \<le>s j \<and> j <s e}) s'"
        by auto
      have "for_int i e body s = Inr s'"
        by (subst for_int.simps) (simp add: True t(1) s'(1))
      with s'(2) show ?thesis
        by (simp only: range_split [OF True]) simp
    qed
  qed
qed

lemma for_int_rule:
  assumes init: "I {} s"
    and step: "\<And>D j t. I D t \<Longrightarrow> i \<le>s j \<Longrightarrow> j <s e \<Longrightarrow> \<exists>t'. body j t = Inr t' \<and> I (insert j D) t'"
  shows "\<exists>s'. for_int i e body s = Inr s' \<and> I {j. i \<le>s j \<and> j <s e} s'"
proof -
  have all: "\<forall>D j t. I D t \<longrightarrow> i \<le>s j \<longrightarrow> j <s e \<longrightarrow> (\<exists>t'. body j t = Inr t' \<and> I (insert j D) t')"
    by (intro allI impI) (rule step)
  show ?thesis
    by (rule for_int_rule_aux [of s i e body, THEN spec, of I, THEN mp, THEN mp, OF init all])
qed

text \<open>The same for a loop that counts from \<open>lo\<close> to \<open>hi\<close>, with an invariant of the counter.\<close>

lemma for_upt_rule:
  assumes init: "I lo s"
    and step: "\<And>i t. lo \<le> i \<Longrightarrow> i < hi \<Longrightarrow> I i t \<Longrightarrow> \<exists>t'. body i t = Inr t' \<and> I (Suc i) t'"
    and le: "lo \<le> hi"
  shows "\<exists>s'. for_each [lo..<hi] body s = Inr s' \<and> I hi s'"
  using init step le
proof (induction "hi - lo" arbitrary: lo s)
  case 0
  then show ?case by simp
next
  case (Suc n)
  then have lt: "lo < hi"
    by simp
  from Suc.prems(2) [OF _ lt Suc.prems(1)]
  obtain t where t: "body lo s = Inr t" "I (Suc lo) t"
    by auto
  have "\<exists>s'. for_each [Suc lo..<hi] body t = Inr s' \<and> I hi s'"
  proof (rule Suc.hyps(1))
    show "n = hi - Suc lo"
      using Suc.hyps(2) by simp
    show "I (Suc lo) t"
      by (fact t)
    show "Suc lo \<le> hi"
      using lt by simp
    show "\<exists>t'. body i u = Inr t' \<and> I (Suc i) t'" if "Suc lo \<le> i" "i < hi" "I i u" for i u
      using Suc.prems(2) [of i u] that by simp
  qed
  then show ?case
    using t(1) lt by (simp add: upt_rec [of lo hi])
qed

lemma for_int_empty: "\<not> i <s e \<Longrightarrow> for_int i e body s = Inr s"
  by (subst for_int.simps) simp

section \<open>\<^verbatim>\<open>FillCircle\<close>\<close>

text \<open>A counter that passes a bounds test is an index of the array.\<close>

lemma guard_in_bounds:
  fixes j :: c_int
  assumes "0 \<le>s j" "j <s of_nat n"
  shows "unat j < n"
proof -
  have j: "0 \<le> sint j" "sint j < sint (of_nat n :: c_int)"
    using assms by (simp_all add: word_sle_eq word_sless_alt)
  then have "0 \<le> sint (of_nat n :: c_int)"
    by simp
  then have "sint (of_nat n :: c_int) = uint (of_nat n :: c_int)"
    by (simp add: sint_nonneg_uint)
  also have "\<dots> = int (n mod 2 ^ 32)"
    by (simp add: unsigned_of_nat take_bit_eq_mod)
  also have "\<dots> \<le> int n"
    by simp
  finally have "sint j < int n"
    using j by simp
  moreover have "unat j = nat (sint j)"
    using sint_nonneg_uint [OF j(1)] by (simp add: unat_eq_nat_uint)
  ultimately show ?thesis
    using j(1) by linarith
qed

lemma nonneg_of_nat_unat:
  fixes j :: c_int
  assumes "0 \<le>s j"
  shows "unat j < 2 ^ 31"
proof -
  have "0 \<le> sint j"
    using assms by (simp add: word_sle_eq)
  then have "unat j = nat (sint j)"
    using sint_nonneg_uint [of j] by (simp add: unat_eq_nat_uint)
  moreover have "sint j < 2 ^ 31"
    using sint_lt [of j] by simp
  ultimately show ?thesis
    using \<open>0 \<le> sint j\<close> by (simp add: nat_less_iff)
qed

lemma unat_of_nat_small:
  assumes "n < 2 ^ 31"
  shows "unat (of_nat n :: c_int) = n" "0 \<le>s (of_nat n :: c_int)"
  using assms by (simp_all add: unsigned_of_nat take_bit_nat_eq_self word_sle_eq sint_of_nat_small)

lemma painted_iff:
  "painted cfg origin radius r c \<longleftrightarrow>
     (\<exists>x y. vx origin - radius \<le>s x \<and> x <s vx origin + radius \<and> 0 \<le>s x \<and> x <s of_nat (WIDTH cfg) \<and>
            vy origin - radius \<le>s y \<and> y <s vy origin + radius \<and> 0 \<le>s y \<and> y <s of_nat (HEIGHT cfg) \<and>
            SquareDistance origin \<lparr>vx = x, vy = y\<rparr> \<le>s radius * radius \<and>
            c = unat x \<and> r = unat y)"
  (is "?L \<longleftrightarrow> ?R")
proof
  assume ?L
  then have "c < 2 ^ 31" "r < 2 ^ 31"
    by (simp_all add: painted_def)
  with \<open>?L\<close> show ?R
    by (intro exI [of _ "of_nat c"] exI [of _ "of_nat r"])
       (simp add: painted_def Let_def unat_of_nat_small)
next
  assume ?R
  then obtain x y where xy: "vx origin - radius \<le>s x" "x <s vx origin + radius" "0 \<le>s x"
    "x <s of_nat (WIDTH cfg)" "vy origin - radius \<le>s y" "y <s vy origin + radius" "0 \<le>s y"
    "y <s of_nat (HEIGHT cfg)" "SquareDistance origin \<lparr>vx = x, vy = y\<rparr> \<le>s radius * radius"
    "c = unat x" "r = unat y"
    by blast
  have "of_nat c = x" "of_nat r = y"
    using xy(10,11) by simp_all
  moreover have "c < 2 ^ 31" "r < 2 ^ 31"
    using nonneg_of_nat_unat [OF xy(3)] nonneg_of_nat_unat [OF xy(7)] xy(10,11) by simp_all
  ultimately show ?L
    using xy by (simp add: painted_def Let_def)
qed


text \<open>The inner loop of \<^verbatim>\<open>FillCircle\<close>, for a column \<open>x\<close> that has passed its bounds test.\<close>

lemma FillCircle_column:
  fixes x :: c_int
  assumes x: "0 \<le>s x" "x <s of_nat (WIDTH cfg)"
  shows "for_int b e (\<lambda>y img.
            if \<not> (0 \<le>s y \<and> y <s of_nat (HEIGHT cfg)) then Inr img
            else (let point = \<lparr>vx = x, vy = y\<rparr>
                  in if SquareDistance origin point \<le>s rr
                     then image_set cfg img (unat y) (unat x) color
                     else Inr img)) img =
         Inr (\<lambda>r c. if c = unat x \<and> (\<exists>y. b \<le>s y \<and> y <s e \<and> 0 \<le>s y \<and> y <s of_nat (HEIGHT cfg) \<and>
                                 SquareDistance origin \<lparr>vx = x, vy = y\<rparr> \<le>s rr \<and> r = unat y)
                    then color else img r c)"
  (is "for_int b e ?body img = Inr ?res")
proof -
  define hit where "hit y \<longleftrightarrow> 0 \<le>s y \<and> y <s of_nat (HEIGHT cfg) \<and>
      SquareDistance origin \<lparr>vx = x, vy = y\<rparr> \<le>s rr" for y
  define I where "I D t \<longleftrightarrow>
      t = (\<lambda>r c. if c = unat x \<and> (\<exists>y\<in>D. hit y \<and> r = unat y) then color else img r c)"
    for D :: "c_int set" and t :: image
  have "\<exists>s'. for_int b e ?body img = Inr s' \<and> I {j. b \<le>s j \<and> j <s e} s'"
  proof (rule for_int_rule)
    show "I {} img"
      by (simp add: I_def)
  next
    fix D j t
    assume inv: "I D t" and "b \<le>s j" "j <s e"
    show "\<exists>t'. ?body j t = Inr t' \<and> I (insert j D) t'"
    proof (cases "hit j")
      case False
      then have "?body j t = Inr t"
        by (auto simp: hit_def Let_def)
      moreover have "I (insert j D) t"
        using inv False by (simp add: I_def)
      ultimately show ?thesis
        by blast
    next
      case True
      then have "unat j < HEIGHT cfg"
        by (simp add: hit_def guard_in_bounds)
      moreover have "unat x < WIDTH cfg"
        using x by (rule guard_in_bounds)
      ultimately have "?body j t = Inr (t(unat j := (t (unat j))(unat x := color)))"
        using True by (simp add: hit_def Let_def image_set_def)
      moreover have "I (insert j D) (t(unat j := (t (unat j))(unat x := color)))"
        using inv True by (auto simp: I_def fun_eq_iff)
      ultimately show ?thesis
        by blast
    qed
  qed
  then obtain s' where "for_int b e ?body img = Inr s'" "I {j. b \<le>s j \<and> j <s e} s'"
    by blast
  moreover have "s' = ?res"
    using calculation(2) by (auto simp: I_def hit_def fun_eq_iff)
  ultimately show ?thesis
    by simp
qed


text \<open>
  \<^verbatim>\<open>FillCircle\<close> returns for every centre, radius and image: the pixels in \<open>painted\<close> get the
  colour, the others keep theirs.
\<close>

lemma FillCircle_eq:
  "FillCircle cfg origin radius color img =
     Inr (\<lambda>r c. if painted cfg origin radius r c then color else img r c)"
proof -
  define bx ex where "bx = vx origin - radius" and "ex = vx origin + radius"
  define b e where "b = vy origin - radius" and "e = vy origin + radius"
  define col where "col x r \<longleftrightarrow> (\<exists>y. b \<le>s y \<and> y <s e \<and> 0 \<le>s y \<and> y <s of_nat (HEIGHT cfg) \<and>
      SquareDistance origin \<lparr>vx = x, vy = y\<rparr> \<le>s radius * radius \<and> r = unat y)" for x r
  define inner where "inner x = (\<lambda>y img.
      if \<not> (0 \<le>s y \<and> y <s of_nat (HEIGHT cfg)) then Inr img
      else (let point = \<lparr>vx = x, vy = y\<rparr>
            in if SquareDistance origin point \<le>s radius * radius
               then image_set cfg img (unat y) (unat x) color
               else Inr img))" for x :: c_int
  define body where "body = (\<lambda>x img.
      if \<not> (0 \<le>s x \<and> x <s of_nat (WIDTH cfg)) then Inr img
      else for_int b e (inner x) img)"
  define guard where "guard x \<longleftrightarrow> 0 \<le>s x \<and> x <s of_nat (WIDTH cfg)" for x :: c_int
  define I where "I D t \<longleftrightarrow>
      t = (\<lambda>r c. if \<exists>x\<in>D. guard x \<and> c = unat x \<and> col x r then color else img r c)"
    for D :: "c_int set" and t :: image
  have unfolded: "FillCircle cfg origin radius color img = for_int bx ex body img"
    unfolding FillCircle_def body_def inner_def bx_def ex_def b_def e_def
    by (simp only: Let_def Vec2.simps)
  have column: "for_int b e (inner x) t =
      Inr (\<lambda>r c. if c = unat x \<and> col x r then color else t r c)" if "guard x" for x t
    using that unfolding inner_def col_def guard_def by (intro FillCircle_column) simp_all
  have "\<exists>s'. for_int bx ex body img = Inr s' \<and> I {j. bx \<le>s j \<and> j <s ex} s'"
  proof (rule for_int_rule)
    show "I {} img"
      by (simp add: I_def)
  next
    fix D j t
    assume inv: "I D t" and "bx \<le>s j" "j <s ex"
    show "\<exists>t'. body j t = Inr t' \<and> I (insert j D) t'"
    proof (cases "guard j")
      case False
      then have "body j t = Inr t"
        by (simp add: body_def guard_def)
      moreover have "I (insert j D) t"
        using inv False by (simp add: I_def)
      ultimately show ?thesis
        by blast
    next
      case True
      then have "body j t = Inr (\<lambda>r c. if c = unat j \<and> col j r then color else t r c)"
        using column [OF True] by (simp add: body_def guard_def)
      moreover have "I (insert j D) (\<lambda>r c. if c = unat j \<and> col j r then color else t r c)"
        using inv True by (auto simp: I_def fun_eq_iff)
      ultimately show ?thesis
        by blast
    qed
  qed
  then obtain s' where s': "for_int bx ex body img = Inr s'" "I {j. bx \<le>s j \<and> j <s ex} s'"
    by blast
  have "painted cfg origin radius r c \<longleftrightarrow>
      (\<exists>x\<in>{j. bx \<le>s j \<and> j <s ex}. guard x \<and> c = unat x \<and> col x r)" for r c
    unfolding painted_iff col_def guard_def bx_def ex_def b_def e_def by auto
  then have "s' = (\<lambda>r c. if painted cfg origin radius r c then color else img r c)"
    using s'(2) by (simp add: I_def)
  with s'(1) unfolded show ?thesis
    by simp
qed

lemma painted_in_bounds:
  assumes "painted cfg origin radius r c"
  shows "r < HEIGHT cfg \<and> c < WIDTH cfg"
  using assms unfolding painted_iff by (auto intro: guard_in_bounds)

text \<open>\<^verbatim>\<open>RenderSeedMarkers\<close> paints the union of the markers.\<close>

lemma RenderSeedMarkers_eq:
  "RenderSeedMarkers cfg seeds img =
     Inr (\<lambda>r c. if \<exists>i<length seeds. painted cfg (seeds ! i) SEED_MARKER_RADIUS r c
                 then SEED_MARKER_COLOR else img r c)"
proof -
  define body where "body = (\<lambda>i img.
      case seeds_get seeds i of Inl e \<Rightarrow> Inl e
      | Inr s \<Rightarrow> FillCircle cfg s SEED_MARKER_RADIUS SEED_MARKER_COLOR img)"
  define I where "I n t \<longleftrightarrow>
      t = (\<lambda>r c. if \<exists>i<n. painted cfg (seeds ! i) SEED_MARKER_RADIUS r c
                  then SEED_MARKER_COLOR else img r c)" for n and t :: image
  have "\<exists>s'. for_each [0..<length seeds] body img = Inr s' \<and> I (length seeds) s'"
  proof (rule for_upt_rule)
    show "I 0 img"
      by (simp add: I_def)
  next
    fix i t
    assume "i < length seeds" and inv: "I i t"
    then have "body i t = Inr (\<lambda>r c. if painted cfg (seeds ! i) SEED_MARKER_RADIUS r c
                 then SEED_MARKER_COLOR else t r c)"
      by (simp add: body_def seeds_get_def FillCircle_eq)
    moreover have "I (Suc i) (\<lambda>r c. if painted cfg (seeds ! i) SEED_MARKER_RADIUS r c
                 then SEED_MARKER_COLOR else t r c)"
      using inv by (auto simp: I_def fun_eq_iff less_Suc_eq)
    ultimately show "\<exists>t'. body i t = Inr t' \<and> I (Suc i) t'"
      by blast
  qed simp
  then show ?thesis
    by (auto simp: RenderSeedMarkers_def body_def I_def)
qed

lemma painted_int_iff:
  assumes org: "0 \<le> sint (vx origin)" "sint (vx origin) < 32768"
      "0 \<le> sint (vy origin)" "sint (vy origin) < 32768"
    and rad: "0 \<le> sint radius" "sint radius < 32768"
    and cfg: "WIDTH cfg \<le> 32768" "HEIGHT cfg \<le> 32768"
  shows "painted cfg origin radius r c \<longleftrightarrow>
     r < HEIGHT cfg \<and> c < WIDTH cfg \<and>
     int c < sint (vx origin) + sint radius \<and> int r < sint (vy origin) + sint radius \<and>
     (sint (vx origin) - int c)\<^sup>2 + (sint (vy origin) - int r)\<^sup>2 \<le> (sint radius)\<^sup>2"
  (is "?L \<longleftrightarrow> ?R")
proof (cases "r < HEIGHT cfg \<and> c < WIDTH cfg")
  case False
  then show ?thesis
    using painted_in_bounds [of cfg origin radius r c] by blast
next
  case True
  define x y :: c_int where "x = of_nat c" and "y = of_nat r"
  have small: "c < 32768" "r < 32768"
    using True cfg by simp_all
  then have "c < 2 ^ 31" "r < 2 ^ 31"
    by simp_all
  then have xy: "sint x = int c" "sint y = int r"
    unfolding x_def y_def by (simp_all add: sint_of_nat_small)
  have wh: "sint (of_nat (WIDTH cfg) :: c_int) = int (WIDTH cfg)"
    "sint (of_nat (HEIGHT cfg) :: c_int) = int (HEIGHT cfg)"
    using cfg by (simp_all add: sint_of_nat_small)
  have lo: "sint (vx origin - radius) = sint (vx origin) - sint radius"
    "sint (vy origin - radius) = sint (vy origin) - sint radius"
    using org rad by (simp_all add: sint_sub)
  have hi: "sint (vx origin + radius) = sint (vx origin) + sint radius"
    "sint (vy origin + radius) = sint (vy origin) + sint radius"
    using org rad by (simp_all add: sint_add)
  have "sint (SquareDistance origin \<lparr>vx = x, vy = y\<rparr>) = sq_dist origin \<lparr>vx = x, vy = y\<rparr>"
    using org small by (intro sint_SquareDistance) (simp_all add: xy)
  then have dist: "sint (SquareDistance origin \<lparr>vx = x, vy = y\<rparr>) =
      (sint (vx origin) - int c)\<^sup>2 + (sint (vy origin) - int r)\<^sup>2"
    by (simp add: sq_dist_def xy)
  have rr: "sint (radius * radius) = (sint radius)\<^sup>2"
    using rad sint_square(1) [of radius] by (simp add: power2_eq_square)
  have L: "?L \<longleftrightarrow>
      sint (vx origin) - sint radius \<le> int c \<and> int c < sint (vx origin) + sint radius \<and>
      sint (vy origin) - sint radius \<le> int r \<and> int r < sint (vy origin) + sint radius \<and>
      (sint (vx origin) - int c)\<^sup>2 + (sint (vy origin) - int r)\<^sup>2 \<le> (sint radius)\<^sup>2"
    using True \<open>c < 2 ^ 31\<close> \<open>r < 2 ^ 31\<close>
    unfolding painted_def Let_def x_def [symmetric] y_def [symmetric] word_sle_eq word_sless_alt
      lo hi wh xy dist rr
    by auto
  show ?thesis
  proof
    assume ?L
    with L True show ?R
      by simp
  next
    assume R: ?R
    then have "sint (vx origin) - int c \<le> sint radius" "sint (vy origin) - int r \<le> sint radius"
      using square_le_radius [of "sint (vx origin) - int c" "sint (vy origin) - int r" "sint radius"]
        rad(1) by simp_all
    with R L show ?L
      by simp
  qed
qed

text \<open>
  What \<^verbatim>\<open>FillCircle\<close> paints, on the integers: the pixels of the buffer inside the closed
  disc that are left of the column \<^verbatim>\<open>origin.x + radius\<close> and above the row
  \<^verbatim>\<open>origin.y + radius\<close>.
\<close>

lemma FillCircle_paints:
  assumes "0 \<le> sint (vx origin)" "sint (vx origin) < 32768"
      "0 \<le> sint (vy origin)" "sint (vy origin) < 32768"
    and "0 \<le> sint radius" "sint radius < 32768"
    and "WIDTH cfg \<le> 32768" "HEIGHT cfg \<le> 32768"
  shows "FillCircle cfg origin radius color img =
     Inr (\<lambda>r c.
       if r < HEIGHT cfg \<and> c < WIDTH cfg \<and>
          int c < sint (vx origin) + sint radius \<and> int r < sint (vy origin) + sint radius \<and>
          (sint (vx origin) - int c)\<^sup>2 + (sint (vy origin) - int r)\<^sup>2 \<le> (sint radius)\<^sup>2
       then color else img r c)"
  by (simp only: FillCircle_eq painted_int_iff [OF assms])

text \<open>
  Claim C9. For every centre and every colour, \<^verbatim>\<open>FillCircle\<close> with radius 0 stores into no
  pixel: both loops run over an empty range, the image is returned as it was, and no pixel
  is in the set of pixels stored into.
\<close>

theorem FillCircle_radius_0_paints_nothing:
  "FillCircle cfg origin 0 color img = Inr img \<and> (\<forall>r c. \<not> painted cfg origin 0 r c)"
proof
  have "\<not> vx origin - 0 <s vx origin + 0"
    by simp
  then show "FillCircle cfg origin 0 color img = Inr img"
    by (simp add: FillCircle_def for_int_empty)
next
  have "\<not> (vx origin \<le>s x \<and> x <s vx origin)" for x
    by (simp add: word_sle_eq word_sless_alt)
  then show "\<forall>r c. \<not> painted cfg origin 0 r c"
    by (simp add: painted_def Let_def)
qed

theorem FillCircle_radius_0_paints_nothing_witness:
  "FillCircle source_config \<lparr>vx = 50, vy = 50\<rparr> 0 COLOR_BLACK (\<lambda>r c. COLOR_BACKGROUND)
     = Inr (\<lambda>r c. COLOR_BACKGROUND) \<and>
   \<not> painted source_config \<lparr>vx = 50, vy = 50\<rparr> 0 50 50"
  using FillCircle_radius_0_paints_nothing
    [of source_config "\<lparr>vx = 50, vy = 50\<rparr>" COLOR_BLACK "\<lambda>r c. COLOR_BACKGROUND"]
  by simp

text \<open>
  Claim C7. For every centre and every radius, \<^verbatim>\<open>FillCircle\<close> ends without a store outside
  the array: it returns an image, every pixel it stores into and every pixel whose colour
  differs afterwards has its row below \<^verbatim>\<open>HEIGHT\<close> and its column below \<^verbatim>\<open>WIDTH\<close>. The same
  holds for \<^verbatim>\<open>RenderSeedMarkers\<close>, whatever the seeds are.
\<close>

theorem FillCircle_writes_in_bounds:
  "(\<exists>img'. FillCircle cfg origin radius color img = Inr img' \<and>
      (\<forall>r c. img' r c \<noteq> img r c \<longrightarrow> r < HEIGHT cfg \<and> c < WIDTH cfg)) \<and>
   (\<forall>r c. painted cfg origin radius r c \<longrightarrow> r < HEIGHT cfg \<and> c < WIDTH cfg) \<and>
   (\<exists>img'. RenderSeedMarkers cfg seeds img = Inr img' \<and>
      (\<forall>r c. img' r c \<noteq> img r c \<longrightarrow> r < HEIGHT cfg \<and> c < WIDTH cfg))"
  using painted_in_bounds [of cfg]
  by (auto simp: FillCircle_eq RenderSeedMarkers_eq)

theorem FillCircle_writes_in_bounds_witness:
  "\<exists>img' img''.
     FillCircle source_config \<lparr>vx = 0, vy = 0\<rparr> 4 COLOR_BLACK (\<lambda>r c. COLOR_BACKGROUND) = Inr img' \<and>
     img' 0 0 \<noteq> COLOR_BACKGROUND \<and> img' 0 1000 = COLOR_BACKGROUND \<and>
     FillCircle source_config \<lparr>vx = 999, vy = 999\<rparr> 4 COLOR_BLACK (\<lambda>r c. COLOR_BACKGROUND) = Inr img'' \<and>
     img'' 999 999 \<noteq> COLOR_BACKGROUND \<and> img'' 999 1000 = COLOR_BACKGROUND \<and>
     img'' 1000 999 = COLOR_BACKGROUND"
proof -
  let ?bg = "\<lambda>r c. COLOR_BACKGROUND"
  from FillCircle_writes_in_bounds [of source_config "\<lparr>vx = 0, vy = 0\<rparr>" 4 COLOR_BLACK ?bg]
  obtain img' where 1:
    "FillCircle source_config \<lparr>vx = 0, vy = 0\<rparr> 4 COLOR_BLACK ?bg = Inr img'"
    "\<forall>r c. img' r c \<noteq> COLOR_BACKGROUND \<longrightarrow> r < HEIGHT source_config \<and> c < WIDTH source_config"
    by blast
  from FillCircle_writes_in_bounds [of source_config "\<lparr>vx = 999, vy = 999\<rparr>" 4 COLOR_BLACK ?bg]
  obtain img'' where 2:
    "FillCircle source_config \<lparr>vx = 999, vy = 999\<rparr> 4 COLOR_BLACK ?bg = Inr img''"
    "\<forall>r c. img'' r c \<noteq> COLOR_BACKGROUND \<longrightarrow> r < HEIGHT source_config \<and> c < WIDTH source_config"
    by blast
  have outside: "img' 0 1000 = COLOR_BACKGROUND" "img'' 999 1000 = COLOR_BACKGROUND"
    "img'' 1000 999 = COLOR_BACKGROUND"
    using 1(2) [rule_format, of 0 1000] 2(2) [rule_format, of 999 1000] 2(2) [rule_format, of 1000 999]
    by (auto simp: source_config_def)
  have "painted source_config \<lparr>vx = 0, vy = 0\<rparr> 4 0 0"
    "painted source_config \<lparr>vx = 999, vy = 999\<rparr> 4 999 999"
    by (simp_all add: painted_def source_config_def SquareDistance_def word_sle_eq word_sless_alt)
  then have "img' 0 0 = COLOR_BLACK" "img'' 999 999 = COLOR_BLACK"
    using 1(1) 2(1) by (auto simp: FillCircle_eq)
  then have "img' 0 0 \<noteq> COLOR_BACKGROUND" "img'' 999 999 \<noteq> COLOR_BACKGROUND"
    by (simp_all add: COLOR_BLACK_def COLOR_BACKGROUND_def)
  with 1(1) 2(1) outside show ?thesis
    by blast
qed

text \<open>
  Claim C2. \<^verbatim>\<open>FillCircle\<close> does not store into every pixel of the buffer whose squared distance
  from the centre is at most the square of the radius: the two counters stop before
  \<^verbatim>\<open>origin.x + radius\<close> and \<^verbatim>\<open>origin.y + radius\<close>. With centre \<^verbatim>\<open>(50, 50)\<close> and radius 5 in the
  raster of the source, the pixels \<^verbatim>\<open>(45, 50)\<close> and \<^verbatim>\<open>(50, 45)\<close> are painted, and the pixels
  \<^verbatim>\<open>(55, 50)\<close> and \<^verbatim>\<open>(50, 55)\<close>, at the same squared distance 25, keep their colour. The marker
  that \<^verbatim>\<open>RenderSeedMarkers\<close> draws for a seed at \<^verbatim>\<open>(50, 50)\<close>, of radius 4, paints \<^verbatim>\<open>(46, 50)\<close> and
  leaves \<^verbatim>\<open>(54, 50)\<close>.
\<close>

theorem FillCircle_misses_far_edge:
  "\<exists>img' img''.
     FillCircle source_config \<lparr>vx = 50, vy = 50\<rparr> 5 COLOR_BLACK (\<lambda>r c. COLOR_BACKGROUND) = Inr img' \<and>
     sq_dist \<lparr>vx = 50, vy = 50\<rparr> \<lparr>vx = 55, vy = 50\<rparr> = 5\<^sup>2 \<and> img' 50 55 = COLOR_BACKGROUND \<and>
     sq_dist \<lparr>vx = 50, vy = 50\<rparr> \<lparr>vx = 50, vy = 55\<rparr> = 5\<^sup>2 \<and> img' 55 50 = COLOR_BACKGROUND \<and>
     sq_dist \<lparr>vx = 50, vy = 50\<rparr> \<lparr>vx = 45, vy = 50\<rparr> = 5\<^sup>2 \<and> img' 50 45 = COLOR_BLACK \<and>
     sq_dist \<lparr>vx = 50, vy = 50\<rparr> \<lparr>vx = 50, vy = 45\<rparr> = 5\<^sup>2 \<and> img' 45 50 = COLOR_BLACK \<and>
     RenderSeedMarkers source_config [\<lparr>vx = 50, vy = 50\<rparr>] (\<lambda>r c. COLOR_BACKGROUND) = Inr img'' \<and>
     sq_dist \<lparr>vx = 50, vy = 50\<rparr> \<lparr>vx = 54, vy = 50\<rparr> = 4\<^sup>2 \<and> img'' 50 54 = COLOR_BACKGROUND \<and>
     sq_dist \<lparr>vx = 50, vy = 50\<rparr> \<lparr>vx = 46, vy = 50\<rparr> = 4\<^sup>2 \<and> img'' 50 46 = SEED_MARKER_COLOR \<and>
     COLOR_BLACK \<noteq> COLOR_BACKGROUND \<and> SEED_MARKER_COLOR \<noteq> COLOR_BACKGROUND"
  by (simp add: FillCircle_eq RenderSeedMarkers_eq painted_def source_config_def sq_dist_def
      SquareDistance_def SEED_MARKER_RADIUS_def SEED_MARKER_COLOR_def COLOR_BLACK_def
      COLOR_BACKGROUND_def word_sle_eq word_sless_alt)

section \<open>\<^verbatim>\<open>FillImage\<close>\<close>

text \<open>
  Two nested counting loops whose body stores into the pixel \<open>(row y x, col y x)\<close> a colour
  that depends on this pixel only: \<^verbatim>\<open>FillImage\<close> and \<^verbatim>\<open>RenderVoronoi\<close> are of this form.
\<close>

lemma store_row:
  assumes "\<And>x. x < n \<Longrightarrow> row x < HEIGHT cfg \<and> col x < WIDTH cfg"
    and "\<And>x img. x < n \<Longrightarrow> body x img = image_set cfg img (row x) (col x) (g (row x) (col x))"
  shows "for_each [0..<n] body img =
     Inr (\<lambda>r c. if \<exists>x<n. r = row x \<and> c = col x then g r c else img r c)"
proof -
  define I where "I k t \<longleftrightarrow>
      t = (\<lambda>r c. if \<exists>x<k. r = row x \<and> c = col x then g r c else img r c)" for k and t :: image
  have "\<exists>s'. for_each [0..<n] body img = Inr s' \<and> I n s'"
  proof (rule for_upt_rule)
    show "I 0 img"
      by (simp add: I_def)
  next
    fix i t
    assume i: "i < n" and inv: "I i t"
    have "body i t = Inr (t(row i := (t (row i))(col i := g (row i) (col i))))"
      using assms(1) [OF i] assms(2) [OF i] by (simp add: image_set_def)
    moreover have "I (Suc i) (t(row i := (t (row i))(col i := g (row i) (col i))))"
      using inv by (auto simp: I_def fun_eq_iff less_Suc_eq)
    ultimately show "\<exists>t'. body i t = Inr t' \<and> I (Suc i) t'"
      by blast
  qed simp
  then show ?thesis
    by (auto simp: I_def)
qed

lemma store_rows:
  assumes "\<And>y x. y < m \<Longrightarrow> x < n \<Longrightarrow> row y x < HEIGHT cfg \<and> col y x < WIDTH cfg"
    and "\<And>y x img. y < m \<Longrightarrow> x < n \<Longrightarrow>
           body y x img = image_set cfg img (row y x) (col y x) (g (row y x) (col y x))"
  shows "for_each [0..<m] (\<lambda>y img. for_each [0..<n] (body y) img) img =
     Inr (\<lambda>r c. if \<exists>y<m. \<exists>x<n. r = row y x \<and> c = col y x then g r c else img r c)"
proof -
  define I where "I k t \<longleftrightarrow>
      t = (\<lambda>r c. if \<exists>y<k. \<exists>x<n. r = row y x \<and> c = col y x then g r c else img r c)"
    for k and t :: image
  have "\<exists>s'. for_each [0..<m] (\<lambda>y img. for_each [0..<n] (body y) img) img = Inr s' \<and> I m s'"
  proof (rule for_upt_rule)
    show "I 0 img"
      by (simp add: I_def)
  next
    fix i t
    assume i: "i < m" and inv: "I i t"
    have "for_each [0..<n] (body i) t =
        Inr (\<lambda>r c. if \<exists>x<n. r = row i x \<and> c = col i x then g r c else t r c)"
      using assms(1) [OF i] assms(2) [OF i] by (intro store_row) auto
    moreover have "I (Suc i) (\<lambda>r c. if \<exists>x<n. r = row i x \<and> c = col i x then g r c else t r c)"
      using inv by (auto simp: I_def fun_eq_iff less_Suc_eq)
    ultimately show "\<exists>t'. for_each [0..<n] (body i) t = Inr t' \<and> I (Suc i) t'"
      by blast
  qed simp
  then show ?thesis
    by (auto simp: I_def)
qed

lemma FillImage_row_major_eq:
  "FillImage_row_major cfg color img =
     Inr (\<lambda>r c. if r < HEIGHT cfg \<and> c < WIDTH cfg then color else img r c)"
proof -
  have "FillImage_row_major cfg color img =
      Inr (\<lambda>r c. if \<exists>y<HEIGHT cfg. \<exists>x<WIDTH cfg. r = y \<and> c = x then color else img r c)"
    unfolding FillImage_row_major_def
    by (rule store_rows [where row = "\<lambda>y x. y" and col = "\<lambda>y x. x" and g = "\<lambda>r c. color"]) simp_all
  then show ?thesis
    by simp
qed

lemma FillImage_square_eq:
  assumes "WIDTH cfg = HEIGHT cfg"
  shows "FillImage cfg color img =
     Inr (\<lambda>r c. if r < HEIGHT cfg \<and> c < WIDTH cfg then color else img r c)"
proof -
  have "FillImage cfg color img =
      Inr (\<lambda>r c. if \<exists>y<HEIGHT cfg. \<exists>x<WIDTH cfg. r = x \<and> c = y then color else img r c)"
    unfolding FillImage_def
    by (rule store_rows [where row = "\<lambda>y x. x" and col = "\<lambda>y x. y" and g = "\<lambda>r c. color"])
       (simp_all add: assms)
  moreover have "(\<exists>y<HEIGHT cfg. \<exists>x<WIDTH cfg. r = x \<and> c = y) \<longleftrightarrow> r < HEIGHT cfg \<and> c < WIDTH cfg"
    for r c
    using assms by auto
  ultimately show ?thesis
    by simp
qed

text \<open>On a raster that is not a square, \<^verbatim>\<open>FillImage\<close> stores outside the array.\<close>

lemma FillImage_not_square:
  "FillImage \<lparr>WIDTH = 2, HEIGHT = 3\<rparr> color img = Inl OutOfBounds"
  "FillImage \<lparr>WIDTH = 3, HEIGHT = 2\<rparr> color img = Inl OutOfBounds"
  by (simp_all add: FillImage_def image_set_def upt_rec)

text \<open>
  Claim C6. When \<^verbatim>\<open>WIDTH\<close> equals \<^verbatim>\<open>HEIGHT\<close>, \<^verbatim>\<open>FillImage\<close>, which stores into \<^verbatim>\<open>image[x][y]\<close>,
  returns the same image as the fill that stores into \<^verbatim>\<open>image[y][x]\<close>, and every pixel of the
  buffer has the colour of the fill.
\<close>

theorem FillImage_square_is_row_major_fill:
  assumes "WIDTH cfg = HEIGHT cfg"
  shows "FillImage cfg color img = FillImage_row_major cfg color img \<and>
     (\<exists>img'. FillImage cfg color img = Inr img' \<and>
        (\<forall>y<HEIGHT cfg. \<forall>x<WIDTH cfg. img' y x = color))"
proof -
  define filled :: image
    where "filled = (\<lambda>r c. if r < HEIGHT cfg \<and> c < WIDTH cfg then color else img r c)"
  have transposed: "FillImage cfg color img = Inr filled"
    unfolding filled_def using assms by (rule FillImage_square_eq)
  have row_major: "FillImage_row_major cfg color img = Inr filled"
    unfolding filled_def by (rule FillImage_row_major_eq)
  have "\<forall>y<HEIGHT cfg. \<forall>x<WIDTH cfg. filled y x = color"
    by (simp add: filled_def)
  with transposed row_major show ?thesis
    by simp
qed

theorem FillImage_square_is_row_major_fill_witness:
  "WIDTH source_config = HEIGHT source_config \<and>
   FillImage source_config COLOR_BACKGROUND (\<lambda>r c. 0)
     = FillImage_row_major source_config COLOR_BACKGROUND (\<lambda>r c. 0) \<and>
   (\<exists>img'. FillImage source_config COLOR_BACKGROUND (\<lambda>r c. 0) = Inr img' \<and>
      img' 999 0 = COLOR_BACKGROUND \<and> img' 0 999 = COLOR_BACKGROUND)"
proof -
  have square: "WIDTH source_config = HEIGHT source_config"
    by (simp add: source_config_def)
  from FillImage_square_is_row_major_fill [OF square, of COLOR_BACKGROUND "\<lambda>r c. 0"]
  obtain img' where img':
    "FillImage source_config COLOR_BACKGROUND (\<lambda>r c. 0)
       = FillImage_row_major source_config COLOR_BACKGROUND (\<lambda>r c. 0)"
    "FillImage source_config COLOR_BACKGROUND (\<lambda>r c. 0) = Inr img'"
    "\<forall>y<HEIGHT source_config. \<forall>x<WIDTH source_config. img' y x = COLOR_BACKGROUND"
    by blast
  from img'(3) have "img' 999 0 = COLOR_BACKGROUND" "img' 0 999 = COLOR_BACKGROUND"
    by (simp_all add: source_config_def)
  with square img'(1,2) show ?thesis
    by blast
qed

section \<open>\<^verbatim>\<open>SaveImageAsPPM\<close>\<close>

text \<open>The three bytes of a pixel, without the masks.\<close>

lemma mask_consts:
  "(0xFF :: Color) = mask 8" "(0xFF00 :: Color) = push_bit 8 (mask 8)"
  "(0xFF0000 :: Color) = push_bit 16 (mask 8)"
  by (simp_all add: mask_eq_exp_minus_1)

lemma pixel_bytes_eq:
  "pixel_bytes pixel = [ucast pixel, ucast (drop_bit 8 pixel), ucast (drop_bit 16 pixel)]"
proof -
  have "(ucast (pixel AND 0xFF) :: uint8) = ucast pixel"
    unfolding mask_consts by (rule bit_word_eqI) (simp add: bit_simps)
  moreover have "(ucast (drop_bit 8 (pixel AND 0xFF00)) :: uint8) = ucast (drop_bit 8 pixel)"
    unfolding mask_consts by (rule bit_word_eqI) (simp add: bit_simps)
  moreover have "(ucast (drop_bit 16 (pixel AND 0xFF0000)) :: uint8) = ucast (drop_bit 16 pixel)"
    unfolding mask_consts by (rule bit_word_eqI) (simp add: bit_simps)
  ultimately show ?thesis
    by (simp add: pixel_bytes_def)
qed

lemma reassemble_pixel_bytes: "reassemble (pixel_bytes pixel) = take_bit 24 pixel"
proof (rule bit_word_eqI)
  fix n
  assume "n < LENGTH(32)"
  consider "n < 8" | "8 \<le> n" "n < 16" | "16 \<le> n" "n < 24" | "24 \<le> n"
    by linarith
  then show "bit (reassemble (pixel_bytes pixel)) n = bit (take_bit 24 pixel) n"
    by cases (auto simp: pixel_bytes_eq reassemble_def bit_simps)
qed

lemma take_bit_24: "take_bit 24 (pixel :: Color) = pixel AND 0xFFFFFF"
  by (simp add: take_bit_eq_mask mask_eq_exp_minus_1)

text \<open>On an open stream the two loops append the bytes of the pixels, row by row.\<close>

lemma fwrite_loop:
  "for_each xs (\<lambda>x f. fwrite (g x) f) (Open bs) = Inr (Open (bs @ concat (map g xs)))"
  by (induction xs arbitrary: bs) (simp_all add: fwrite_def)

lemma fwrite_loops:
  "for_each ys (\<lambda>y f. for_each xs (\<lambda>x f. fwrite (g y x) f) f) (Open bs) =
     Inr (Open (bs @ concat (map (\<lambda>y. concat (map (g y) xs)) ys)))"
  by (induction ys arbitrary: bs) (simp_all add: fwrite_loop)

lemma SaveImageAsPPM_Open:
  "SaveImageAsPPM cfg img filePath (Open bs) oserror = Inr (bs @ ppm_header cfg @ pixel_data cfg img)"
  by (simp add: SaveImageAsPPM_def fprintf_def fclose_def Let_def fwrite_loops ppm_header_def
      pixel_data_def)

text \<open>
  Claim C3. When \<^verbatim>\<open>fopen\<close> has returned \<open>NULL\<close>, \<^verbatim>\<open>SaveImageAsPPM\<close> does not reach the test of
  \<^verbatim>\<open>file == NULL\<close>: the first \<^verbatim>\<open>fprintf\<close> is handed the null stream, and the run ends there and
  not with the diagnostic and \<^verbatim>\<open>exit(1)\<close>. Whatever \<^verbatim>\<open>fopen\<close> returned, \<^verbatim>\<open>SaveImageAsPPM\<close> never
  ends with \<^verbatim>\<open>exit\<close>.
\<close>

theorem SaveImageAsPPM_null_stream:
  "SaveImageAsPPM cfg img filePath NULL oserror = Inl NullStream \<and>
   (\<forall>file status msg. SaveImageAsPPM cfg img filePath file oserror \<noteq> Inl (Exit status msg))"
proof -
  have "SaveImageAsPPM cfg img filePath NULL oserror = Inl NullStream"
    by (simp add: SaveImageAsPPM_def fprintf_def)
  moreover have "SaveImageAsPPM cfg img filePath strm oserror \<noteq> Inl (Exit status msg)"
    for strm status msg
    using calculation by (cases strm) (simp_all add: SaveImageAsPPM_Open)
  ultimately show ?thesis
    by blast
qed

text \<open>The place of a pixel in the file.\<close>

lemma length_concat_fixed:
  assumes "\<And>x. x \<in> set xs \<Longrightarrow> length (g x) = n"
  shows "length (concat (map g xs)) = length xs * n"
  using assms by (induction xs) simp_all

lemma chunk_of_concat:
  assumes "\<And>x. x \<in> set xs \<Longrightarrow> length (g x) = n" "k < length xs"
  shows "take n (drop (k * n) (concat (map g xs))) = g (xs ! k)"
  using assms
proof (induction xs arbitrary: k)
  case Nil
  then show ?case by simp
next
  case (Cons a xs)
  then have len: "length (g a) = n"
    by simp
  show ?case
  proof (cases k)
    case 0
    then show ?thesis
      using len by simp
  next
    case (Suc j)
    then have "take n (drop (j * n) (concat (map g xs))) = g (xs ! j)"
      using Cons by simp
    then show ?thesis
      using Suc len by (simp add: add.commute)
  qed
qed

lemma take_drop_within:
  assumes "a + b \<le> m"
  shows "take b (drop a (take m xs)) = take b (drop a xs)"
  using assms by (simp add: drop_take min_def)

lemma pixel_data_chunk:
  assumes "y < HEIGHT cfg" "x < WIDTH cfg"
  shows "take 3 (drop (3 * (y * WIDTH cfg + x)) (pixel_data cfg img)) = pixel_bytes (img y x)"
proof -
  define row where "row = (\<lambda>y. concat (map (\<lambda>x. pixel_bytes (img y x)) [0..<WIDTH cfg]))"
  have len_px: "length (pixel_bytes p) = 3" for p
    by (simp add: pixel_bytes_def)
  have len_row: "length (row y) = 3 * WIDTH cfg" for y
    unfolding row_def using length_concat_fixed [of "[0..<WIDTH cfg]" "\<lambda>x. pixel_bytes (img y x)" 3]
    by (simp add: len_px)
  have data: "pixel_data cfg img = concat (map row [0..<HEIGHT cfg])"
    by (simp add: pixel_data_def row_def)
  have "take (3 * WIDTH cfg) (drop (y * (3 * WIDTH cfg)) (pixel_data cfg img)) = row ([0..<HEIGHT cfg] ! y)"
    unfolding data using assms(1) by (intro chunk_of_concat) (simp_all add: len_row)
  then have row_y: "take (3 * WIDTH cfg) (drop (y * (3 * WIDTH cfg)) (pixel_data cfg img)) = row y"
    using assms(1) by simp
  have "take 3 (drop (x * 3) (row y)) = pixel_bytes (img y ([0..<WIDTH cfg] ! x))"
    unfolding row_def using assms(2) by (intro chunk_of_concat) (simp_all add: len_px)
  then have "take 3 (drop (x * 3) (row y)) = pixel_bytes (img y x)"
    using assms(2) by simp
  moreover have "take 3 (drop (x * 3) (row y)) =
      take 3 (drop (x * 3) (drop (y * (3 * WIDTH cfg)) (pixel_data cfg img)))"
    unfolding row_y [symmetric] using assms(2) by (intro take_drop_within) simp
  moreover have "drop (x * 3) (drop (y * (3 * WIDTH cfg)) (pixel_data cfg img)) =
      drop (3 * (y * WIDTH cfg + x)) (pixel_data cfg img)"
    by (simp add: algebra_simps)
  ultimately show ?thesis
    by simp
qed

text \<open>
  Claim C5. When the file has been opened, \<^verbatim>\<open>SaveImageAsPPM\<close> returns the header followed by
  three bytes for each pixel of the buffer, row by row. The three bytes of the pixel
  \<^verbatim>\<open>image[y][x]\<close> are bits 0 to 7, bits 8 to 15 and bits 16 to 23 of its colour, in this order,
  and put together again they give the low 24 bits of the colour: the top byte is dropped.
\<close>

theorem SaveImageAsPPM_writes_low_three_bytes:
  assumes "y < HEIGHT cfg" "x < WIDTH cfg"
  shows "\<exists>bytes triple.
     SaveImageAsPPM cfg img filePath (Open []) oserror = Inr bytes \<and>
     length bytes = length (ppm_header cfg) + 3 * (HEIGHT cfg * WIDTH cfg) \<and>
     triple = take 3 (drop (length (ppm_header cfg) + 3 * (y * WIDTH cfg + x)) bytes) \<and>
     triple = [ucast (img y x), ucast (drop_bit 8 (img y x)), ucast (drop_bit 16 (img y x))] \<and>
     reassemble triple = img y x AND 0xFFFFFF"
proof -
  define bytes where "bytes = ppm_header cfg @ pixel_data cfg img"
  define triple where
    "triple = take 3 (drop (length (ppm_header cfg) + 3 * (y * WIDTH cfg + x)) bytes)"
  have "length (pixel_data cfg img) = 3 * (HEIGHT cfg * WIDTH cfg)"
    unfolding pixel_data_def
    using length_concat_fixed [of "[0..<HEIGHT cfg]"
        "\<lambda>y. concat (map (\<lambda>x. pixel_bytes (img y x)) [0..<WIDTH cfg])" "3 * WIDTH cfg"]
      length_concat_fixed [of "[0..<WIDTH cfg]" "\<lambda>x. pixel_bytes (img y x)" 3 for y]
    by (simp add: pixel_bytes_def)
  then have len: "length bytes = length (ppm_header cfg) + 3 * (HEIGHT cfg * WIDTH cfg)"
    by (simp add: bytes_def)
  have triple: "triple = pixel_bytes (img y x)"
    using pixel_data_chunk [OF assms, of img] by (simp add: triple_def bytes_def)
  then have "triple = [ucast (img y x), ucast (drop_bit 8 (img y x)), ucast (drop_bit 16 (img y x))]"
    by (simp add: pixel_bytes_eq)
  moreover have "reassemble triple = img y x AND 0xFFFFFF"
    by (simp only: triple reassemble_pixel_bytes take_bit_24)
  moreover have "SaveImageAsPPM cfg img filePath (Open []) oserror = Inr bytes"
    by (simp add: SaveImageAsPPM_Open bytes_def)
  ultimately show ?thesis
    using len triple_def by blast
qed

theorem SaveImageAsPPM_writes_low_three_bytes_witness:
  "\<exists>bytes. SaveImageAsPPM \<lparr>WIDTH = 2, HEIGHT = 1\<rparr> (\<lambda>r c. 0x11223344) OUTPUT_FILE_PATH (Open []) []
        = Inr bytes \<and>
     length bytes = 17 \<and>
     take 3 (drop 14 bytes) = [0x44, 0x33, 0x22] \<and>
     reassemble (take 3 (drop 14 bytes)) = 0x223344"
proof -
  have "(0 :: nat) < HEIGHT \<lparr>WIDTH = 2, HEIGHT = 1\<rparr>" "(1 :: nat) < WIDTH \<lparr>WIDTH = 2, HEIGHT = 1\<rparr>"
    by simp_all
  from SaveImageAsPPM_writes_low_three_bytes [OF this, of "\<lambda>r c. 0x11223344" OUTPUT_FILE_PATH "[]"]
  obtain bytes triple where *:
    "SaveImageAsPPM \<lparr>WIDTH = 2, HEIGHT = 1\<rparr> (\<lambda>r c. 0x11223344) OUTPUT_FILE_PATH (Open []) []
       = Inr bytes"
    "length bytes = length (ppm_header \<lparr>WIDTH = 2, HEIGHT = 1\<rparr>) + 3 * (1 * 2)"
    "triple = take 3 (drop (length (ppm_header \<lparr>WIDTH = 2, HEIGHT = 1\<rparr>) + 3 * (0 * 2 + 1)) bytes)"
    "triple = [ucast (0x11223344 :: Color), ucast (drop_bit 8 (0x11223344 :: Color)),
       ucast (drop_bit 16 (0x11223344 :: Color))]"
    "reassemble triple = 0x11223344 AND 0xFFFFFF"
    by auto
  have hdr: "length (ppm_header \<lparr>WIDTH = 2, HEIGHT = 1\<rparr>) = 11"
    by (simp add: ppm_header_def show_dec.simps)
  have triple: "triple = [0x44, 0x33, 0x22]"
    using *(4) by simp
  have "length bytes = 17"
    using *(2) hdr by simp
  moreover have "take 3 (drop 14 bytes) = [0x44, 0x33, 0x22]"
    using *(3) triple hdr by simp
  moreover have "reassemble (take 3 (drop 14 bytes)) = 0x223344"
    using *(3,5) hdr by simp
  ultimately show ?thesis
    using *(1) by blast
qed

section \<open>\<^verbatim>\<open>RenderVoronoi\<close>\<close>

text \<open>
  The innermost loop returns the first index whose \<^verbatim>\<open>SquareDistance\<close> is least in the signed
  order, for every array of at least one seed.
\<close>

lemma closest_seed_first_least:
  assumes "seeds \<noteq> []"
  shows "\<exists>k. closest_seed seeds p = Inr k \<and> k < length seeds \<and>
     (\<forall>j<length seeds. \<not> SquareDistance (seeds ! j) p <s SquareDistance (seeds ! k) p) \<and>
     (\<forall>j<k. SquareDistance (seeds ! k) p <s SquareDistance (seeds ! j) p)"
proof -
  define D where "D j = sint (SquareDistance (seeds ! j) p)" for j
  define body where "body = (\<lambda>i closestSeedIdx.
      case seeds_get seeds i of Inl e \<Rightarrow> Inl e | Inr si \<Rightarrow>
        (case seeds_get seeds closestSeedIdx of Inl e \<Rightarrow> Inl e | Inr sc \<Rightarrow>
           (let currDist = SquareDistance si p;
                closestDist = SquareDistance sc p
            in Inr (if currDist <s closestDist then i else closestSeedIdx))))"
  define I where "I i k \<longleftrightarrow> k < i \<and> (\<forall>j<i. D k \<le> D j) \<and> (\<forall>j<k. D k < D j)" for i k :: nat
  have "\<exists>k. for_each [1..<length seeds] body 0 = Inr k \<and> I (length seeds) k"
  proof (rule for_upt_rule)
    show "I 1 0"
      by (simp add: I_def)
  next
    show "1 \<le> length seeds"
      using assms by (simp add: Suc_le_eq)
  next
    fix i k
    assume i: "1 \<le> i" "i < length seeds" and inv: "I i k"
    then have k: "k < length seeds"
      by (simp add: I_def)
    have body: "body i k = Inr (if D i < D k then i else k)"
      using i k by (simp add: body_def seeds_get_def Let_def D_def word_sless_alt)
    have "I (Suc i) (if D i < D k then i else k)"
    proof (cases "D i < D k")
      case True
      have "D i \<le> D j" if "j < Suc i" for j
        using that inv True by (cases "j = i") (auto simp: I_def less_Suc_eq dest!: spec [of _ j])
      moreover have "D i < D j" if "j < i" for j
        using that inv True by (auto simp: I_def dest!: spec [of _ j])
      ultimately show ?thesis
        using True by (simp add: I_def)
    next
      case False
      have "D k \<le> D j" if "j < Suc i" for j
        using that inv False by (cases "j = i") (auto simp: I_def less_Suc_eq)
      then show ?thesis
        using False inv by (simp add: I_def)
    qed
    with body show "\<exists>t'. body i k = Inr t' \<and> I (Suc i) t'"
      by simp
  qed
  then obtain k where "closest_seed seeds p = Inr k" "I (length seeds) k"
    by (auto simp: closest_seed_def body_def)
  then show ?thesis
    by (intro exI [of _ k]) (auto simp: I_def D_def word_sless_alt not_less)
qed

text \<open>\<^verbatim>\<open>RenderVoronoi\<close> returns when the colour of every pixel of the buffer is computed.\<close>

lemma RenderVoronoi_eq:
  assumes "\<And>y x. y < HEIGHT cfg \<Longrightarrow> x < WIDTH cfg \<Longrightarrow> pixel_color seeds y x = Inr (f y x)"
  shows "RenderVoronoi cfg seeds img =
     Inr (\<lambda>r c. if r < HEIGHT cfg \<and> c < WIDTH cfg then f r c else img r c)"
proof -
  have "RenderVoronoi cfg seeds img =
      Inr (\<lambda>r c. if \<exists>y<HEIGHT cfg. \<exists>x<WIDTH cfg. r = y \<and> c = x then f r c else img r c)"
    unfolding RenderVoronoi_def
    by (rule store_rows [where row = "\<lambda>y x. y" and col = "\<lambda>y x. x"])
       (simp_all add: render_pixel_def assms)
  then show ?thesis
    by simp
qed

lemma pixel_color_winner:
  assumes "seeds \<noteq> []"
    and "\<forall>s\<in>set seeds. 0 \<le>s vx s \<and> vx s <s 65536 \<and> 0 \<le>s vy s \<and> vy s <s 65536"
    and "closest_seed seeds \<lparr>vx = of_nat x, vy = of_nat y\<rparr> = Inr k"
  shows "k < length seeds"
    and "pixel_color seeds y x = SeedToColor (seeds ! k)"
    and "SeedToColor (seeds ! k) = Inr (push_bit 16 (vx (seeds ! k)) XOR vy (seeds ! k))"
proof -
  show k: "k < length seeds"
    using closest_seed_first_least [OF assms(1), of "\<lparr>vx = of_nat x, vy = of_nat y\<rparr>"] assms(3)
    by auto
  then show "pixel_color seeds y x = SeedToColor (seeds ! k)"
    by (simp add: pixel_color_def assms(3) seeds_get_def SeedToColor_def)
  have "seeds ! k \<in> set seeds"
    using k by simp
  then show "SeedToColor (seeds ! k) = Inr (push_bit 16 (vx (seeds ! k)) XOR vy (seeds ! k))"
    using assms(2) by (intro SeedToColor_ok) auto
qed

lemma closest_seed_winner:
  assumes "seeds \<noteq> []"
  shows "closest_seed seeds \<lparr>vx = of_nat x, vy = of_nat y\<rparr> = Inr (winner seeds y x)"
  using closest_seed_first_least [OF assms, of "\<lparr>vx = of_nat x, vy = of_nat y\<rparr>"]
  by (auto simp: winner_def)

lemma RenderVoronoi_winner:
  assumes "seeds \<noteq> []"
    and "\<forall>s\<in>set seeds. 0 \<le>s vx s \<and> vx s <s 65536 \<and> 0 \<le>s vy s \<and> vy s <s 65536"
  shows "RenderVoronoi cfg seeds img =
     Inr (\<lambda>r c. if r < HEIGHT cfg \<and> c < WIDTH cfg
                 then push_bit 16 (vx (seeds ! winner seeds r c)) XOR vy (seeds ! winner seeds r c)
                 else img r c)"
  using pixel_color_winner(2,3) [OF assms closest_seed_winner [OF assms(1)]]
  by (intro RenderVoronoi_eq) simp

text \<open>
  Claim C1. For a pixel \<^verbatim>\<open>(x, y)\<close> of the buffer and an array of at least one seed,
  \<^verbatim>\<open>RenderVoronoi\<close> stores into \<^verbatim>\<open>image[y][x]\<close> the colour of the seed \<open>k\<close> that its innermost loop
  selects; no seed has a smaller squared Euclidean distance to the pixel than seed \<open>k\<close>, and
  every seed before \<open>k\<close> in the array has a strictly larger one, so among the nearest seeds
  the first wins. The coordinates of the seeds and the sides of the raster are below
  \<open>2\<^sup>1\<^sup>5\<close>, which keeps \<^verbatim>\<open>SquareDistance\<close> inside \<^verbatim>\<open>int\<close>; the source has 1000.
\<close>

theorem RenderVoronoi_nearest_seed_first_wins:
  assumes "seeds \<noteq> []"
    and "\<forall>s\<in>set seeds. 0 \<le>s vx s \<and> vx s <s 32768 \<and> 0 \<le>s vy s \<and> vy s <s 32768"
    and "WIDTH cfg \<le> 32768" "HEIGHT cfg \<le> 32768"
    and "y < HEIGHT cfg" "x < WIDTH cfg"
  shows "\<exists>img' k p.
     RenderVoronoi cfg seeds img = Inr img' \<and>
     p = \<lparr>vx = of_nat x, vy = of_nat y\<rparr> \<and> sint (vx p) = int x \<and> sint (vy p) = int y \<and>
     closest_seed seeds p = Inr k \<and> k < length seeds \<and>
     SeedToColor (seeds ! k) = Inr (img' y x) \<and>
     (\<forall>j<length seeds. sq_dist (seeds ! k) p \<le> sq_dist (seeds ! j) p) \<and>
     (\<forall>j<k. sq_dist (seeds ! k) p < sq_dist (seeds ! j) p)"
proof -
  define p where "p = \<lparr>vx = of_nat x, vy = of_nat y\<rparr>"
  have small: "x < 2 ^ 31" "y < 2 ^ 31"
    using assms(3-6) by simp_all
  have p: "sint (vx p) = int x" "sint (vy p) = int y"
    using small by (simp_all add: p_def sint_of_nat_small)
  have asserts: "\<forall>s\<in>set seeds. 0 \<le>s vx s \<and> vx s <s 65536 \<and> 0 \<le>s vy s \<and> vy s <s 65536"
    using assms(2) by (auto simp: word_sle_eq word_sless_alt)
  from closest_seed_first_least [OF assms(1), of p]
  obtain k where k: "closest_seed seeds p = Inr k" "k < length seeds"
    "\<forall>j<length seeds. \<not> SquareDistance (seeds ! j) p <s SquareDistance (seeds ! k) p"
    "\<forall>j<k. SquareDistance (seeds ! k) p <s SquareDistance (seeds ! j) p"
    by blast
  have dist: "sint (SquareDistance (seeds ! j) p) = sq_dist (seeds ! j) p" if "j < length seeds" for j
  proof -
    have "seeds ! j \<in> set seeds"
      using that by simp
    then have "0 \<le> sint (vx (seeds ! j))" "sint (vx (seeds ! j)) < 32768"
      "0 \<le> sint (vy (seeds ! j))" "sint (vy (seeds ! j)) < 32768"
      using assms(2) by (auto simp: word_sle_eq word_sless_alt)
    moreover have "0 \<le> sint (vx p)" "sint (vx p) < 32768" "0 \<le> sint (vy p)" "sint (vy p) < 32768"
      using assms(3-6) by (simp_all add: p)
    ultimately show ?thesis
      by (rule sint_SquareDistance)
  qed
  have least: "\<forall>j<length seeds. sq_dist (seeds ! k) p \<le> sq_dist (seeds ! j) p"
    using k(2,3) by (auto simp: word_sless_alt dist not_less)
  have first: "\<forall>j<k. sq_dist (seeds ! k) p < sq_dist (seeds ! j) p"
    using k(2,4) by (auto simp: word_sless_alt dist)
  have win: "winner seeds y x = k"
    using k(1) by (simp add: winner_def p_def)
  have "SeedToColor (seeds ! k) = Inr (push_bit 16 (vx (seeds ! k)) XOR vy (seeds ! k))"
    using pixel_color_winner(3) [OF assms(1) asserts, of x y k] k(1) by (simp add: p_def)
  then have "\<exists>img'. RenderVoronoi cfg seeds img = Inr img' \<and> SeedToColor (seeds ! k) = Inr (img' y x)"
    using assms(5,6) by (simp add: RenderVoronoi_winner [OF assms(1) asserts] win)
  with p k(1,2) least first show ?thesis
    unfolding p_def by blast
qed

lemma scenario_closest:
  "closest_seed scenario_seeds \<lparr>vx = 2, vy = 7\<rparr> = Inr 0"
  "closest_seed scenario_seeds \<lparr>vx = 0, vy = 0\<rparr> = Inr 0"
  "closest_seed scenario_seeds \<lparr>vx = 9, vy = 9\<rparr> = Inr 1"
  by (simp_all add: closest_seed_def scenario_seeds_def seeds_get_def SquareDistance_def
      word_sless_alt)

theorem RenderVoronoi_nearest_seed_first_wins_witness:
  "\<exists>img'. RenderVoronoi scenario_config scenario_seeds (\<lambda>r c. COLOR_BACKGROUND) = Inr img' \<and>
     closest_seed scenario_seeds \<lparr>vx = 2, vy = 7\<rparr> = Inr 0 \<and>
     SeedToColor (scenario_seeds ! 0) = Inr (img' 7 2) \<and>
     sq_dist (scenario_seeds ! 0) \<lparr>vx = 2, vy = 7\<rparr> = 25 \<and>
     sq_dist (scenario_seeds ! 1) \<lparr>vx = 2, vy = 7\<rparr> = 25"
proof -
  have "scenario_seeds \<noteq> []"
    and "\<forall>s\<in>set scenario_seeds. 0 \<le>s vx s \<and> vx s <s 32768 \<and> 0 \<le>s vy s \<and> vy s <s 32768"
    and "WIDTH scenario_config \<le> 32768" "HEIGHT scenario_config \<le> 32768"
    and "7 < HEIGHT scenario_config" "2 < WIDTH scenario_config"
    by (simp_all add: scenario_seeds_def scenario_config_def word_sle_eq word_sless_alt)
  from RenderVoronoi_nearest_seed_first_wins [OF this, of "\<lambda>r c. COLOR_BACKGROUND"]
  obtain img' k where *:
    "RenderVoronoi scenario_config scenario_seeds (\<lambda>r c. COLOR_BACKGROUND) = Inr img'"
    "closest_seed scenario_seeds \<lparr>vx = 2, vy = 7\<rparr> = Inr k"
    "SeedToColor (scenario_seeds ! k) = Inr (img' 7 2)"
    by auto
  from *(2) have "k = 0"
    by (simp add: scenario_closest)
  moreover have "sq_dist (scenario_seeds ! 0) \<lparr>vx = 2, vy = 7\<rparr> = 25"
    "sq_dist (scenario_seeds ! 1) \<lparr>vx = 2, vy = 7\<rparr> = 25"
    by (simp_all add: sq_dist_def scenario_seeds_def)
  ultimately show ?thesis
    using * by blast
qed

text \<open>
  Claim C4. For seeds with both coordinates from 0 to 65535, the colour that \<^verbatim>\<open>RenderVoronoi\<close>
  stores into a pixel of the buffer is the \<^verbatim>\<open>x\<close> of the seed selected for the pixel, shifted
  left by 16 bits, exclusive-or its \<^verbatim>\<open>y\<close>: it depends on the pixel only through the selected
  seed. In the scenario of the specification the pixel \<^verbatim>\<open>(0, 0)\<close> belongs to the seed
  \<^verbatim>\<open>(2, 2)\<close> and gets the colour \<^verbatim>\<open>0x20002\<close>.
\<close>

theorem RenderVoronoi_color_of_winning_seed:
  assumes "seeds \<noteq> []"
    and "\<forall>s\<in>set seeds. 0 \<le>s vx s \<and> vx s <s 65536 \<and> 0 \<le>s vy s \<and> vy s <s 65536"
    and "y < HEIGHT cfg" "x < WIDTH cfg"
  shows "\<exists>img' k.
     RenderVoronoi cfg seeds img = Inr img' \<and>
     closest_seed seeds \<lparr>vx = of_nat x, vy = of_nat y\<rparr> = Inr k \<and> k < length seeds \<and>
     SeedToColor (seeds ! k) = Inr (push_bit 16 (vx (seeds ! k)) XOR vy (seeds ! k)) \<and>
     img' y x = push_bit 16 (vx (seeds ! k)) XOR vy (seeds ! k)"
proof -
  note closest = closest_seed_winner [OF assms(1), of x y]
  note win = pixel_color_winner [OF assms(1,2) closest]
  have "\<exists>img'. RenderVoronoi cfg seeds img = Inr img' \<and>
      img' y x = push_bit 16 (vx (seeds ! winner seeds y x)) XOR vy (seeds ! winner seeds y x)"
    using assms(3,4) by (simp add: RenderVoronoi_winner [OF assms(1,2)])
  with closest win(1,3) show ?thesis
    by blast
qed

theorem RenderVoronoi_color_of_winning_seed_witness:
  "\<exists>img'. RenderVoronoi scenario_config scenario_seeds (\<lambda>r c. COLOR_BACKGROUND) = Inr img' \<and>
     closest_seed scenario_seeds \<lparr>vx = 0, vy = 0\<rparr> = Inr 0 \<and>
     scenario_seeds ! 0 = \<lparr>vx = 2, vy = 2\<rparr> \<and>
     SeedToColor \<lparr>vx = 2, vy = 2\<rparr> = Inr 0x20002 \<and>
     img' 0 0 = 0x20002"
proof -
  have "scenario_seeds \<noteq> []"
    and "\<forall>s\<in>set scenario_seeds. 0 \<le>s vx s \<and> vx s <s 65536 \<and> 0 \<le>s vy s \<and> vy s <s 65536"
    and "0 < HEIGHT scenario_config" "0 < WIDTH scenario_config"
    by (simp_all add: scenario_seeds_def scenario_config_def word_sle_eq word_sless_alt)
  from RenderVoronoi_color_of_winning_seed [OF this, of "\<lambda>r c. COLOR_BACKGROUND"]
  obtain img' k where *:
    "RenderVoronoi scenario_config scenario_seeds (\<lambda>r c. COLOR_BACKGROUND) = Inr img'"
    "closest_seed scenario_seeds \<lparr>vx = 0, vy = 0\<rparr> = Inr k"
    "SeedToColor (scenario_seeds ! k) = Inr (push_bit 16 (vx (scenario_seeds ! k)) XOR vy (scenario_seeds ! k))"
    "img' 0 0 = push_bit 16 (vx (scenario_seeds ! k)) XOR vy (scenario_seeds ! k)"
    by auto
  from *(2) have k: "k = 0"
    by (simp add: scenario_closest)
  have seed: "scenario_seeds ! 0 = \<lparr>vx = 2, vy = 2\<rparr>"
    by (simp add: scenario_seeds_def)
  have "SeedToColor \<lparr>vx = 2, vy = 2\<rparr> = Inr 0x20002" "img' 0 0 = 0x20002"
    using *(3,4) unfolding k seed by simp_all
  with * k seed show ?thesis
    by blast
qed

section \<open>\<^verbatim>\<open>GenerateRandomSeeds\<close>\<close>

text \<open>The remainder of a value that is not negative by a positive side lies below the side.\<close>

lemma c_mod_nonneg:
  assumes "0 \<le>s r" "0 < n" "n < 2 ^ 31"
  shows "\<exists>m. c_mod r (of_nat n) = Inr m \<and> 0 \<le> sint m \<and> sint m < int n"
proof -
  have n: "sint (of_nat n :: c_int) = int n"
    using assms(3) by (rule sint_of_nat_small)
  then have nz: "(of_nat n :: c_int) \<noteq> 0"
    using assms(2) by auto
  have r: "0 \<le> sint r"
    using assms(1) by (simp add: word_sle_eq)
  then have "sint r smod int n = sint r mod int n"
    using assms(2) by (simp add: smod_int_alt_def sgn_if)
  moreover have "0 \<le> sint r mod int n" "sint r mod int n < int n"
    using assms(2) by simp_all
  moreover have "int n < 2147483648"
    using assms(3) by simp
  moreover have "sint (word_of_int (sint r mod int n) :: c_int) = sint r mod int n"
    using calculation(2-4) by (intro sint_in_range) simp_all
  ultimately show ?thesis
    using nz n by (simp add: c_mod_def)
qed

lemma Vec2_update_both:
  fixes s :: Vec2
  shows "s\<lparr>vx := a, vy := b\<rparr> = \<lparr>vx = a, vy = b\<rparr>"
  by (rule Vec2.equality) simp_all

lemma GenerateRandomSeeds_step:
  fixes ss :: "Vec2 list"
  assumes g: "\<forall>n. 0 \<le>s g n"
    and cfg: "0 < WIDTH cfg" "WIDTH cfg < 2 ^ 31" "0 < HEIGHT cfg" "HEIGHT cfg < 2 ^ 31"
    and i: "i < length ss"
  shows "\<exists>g' px py.
     (let (r1, g1) = rand g in
        case c_mod r1 (of_nat (WIDTH cfg)) of Inl e \<Rightarrow> Inl e | Inr px \<Rightarrow>
          (let seeds1 = ss[i := (ss ! i)\<lparr>vx := px\<rparr>];
               (r2, g2) = rand g1 in
           (case c_mod r2 (of_nat (HEIGHT cfg)) of Inl e \<Rightarrow> Inl e | Inr py \<Rightarrow>
              Inr (g2, seeds1[i := (seeds1 ! i)\<lparr>vy := py\<rparr>]))))
       = Inr (g', ss[i := \<lparr>vx = px, vy = py\<rparr>]) \<and>
     (\<forall>n. 0 \<le>s g' n) \<and> in_raster cfg \<lparr>vx = px, vy = py\<rparr>"
proof -
  from c_mod_nonneg [OF g [rule_format, of 0] cfg(1,2)]
  obtain px where px: "c_mod (g 0) (of_nat (WIDTH cfg)) = Inr px" "0 \<le> sint px"
    "sint px < int (WIDTH cfg)"
    by blast
  from c_mod_nonneg [OF g [rule_format, of 1] cfg(3,4)]
  obtain py where py: "c_mod (g 1) (of_nat (HEIGHT cfg)) = Inr py" "0 \<le> sint py"
    "sint py < int (HEIGHT cfg)"
    by blast
  show ?thesis
    using px py g i
    by (rule_tac x = "\<lambda>n. g (Suc (Suc n))" in exI, rule_tac x = px in exI, rule_tac x = py in exI)
       (simp add: rand_def in_raster_def Vec2_update_both)
qed

lemma GenerateRandomSeeds_eq:
  assumes g: "\<forall>n. 0 \<le>s g n"
    and cfg: "0 < WIDTH cfg" "WIDTH cfg < 2 ^ 31" "0 < HEIGHT cfg" "HEIGHT cfg < 2 ^ 31"
  shows "\<exists>g' seeds'. GenerateRandomSeeds cfg (g, seeds) = Inr (g', seeds') \<and>
     length seeds' = length seeds \<and> (\<forall>s\<in>set seeds'. in_raster cfg s)"
proof -
  define body :: "nat \<Rightarrow> rng \<times> Vec2 list \<Rightarrow> error + rng \<times> Vec2 list"
    where "body = (\<lambda>i (g, seeds).
       (let (r1, g1) = rand g in
        case c_mod r1 (of_nat (WIDTH cfg)) of Inl e \<Rightarrow> Inl e | Inr px \<Rightarrow>
          (let seeds1 = seeds[i := (seeds ! i)\<lparr>vx := px\<rparr>];
               (r2, g2) = rand g1 in
           (case c_mod r2 (of_nat (HEIGHT cfg)) of Inl e \<Rightarrow> Inl e | Inr py \<Rightarrow>
              Inr (g2, seeds1[i := (seeds1 ! i)\<lparr>vy := py\<rparr>])))))"
  define I where "I i st \<longleftrightarrow> (\<forall>n. 0 \<le>s fst st n) \<and> length (snd st) = length seeds \<and>
      (\<forall>j<i. in_raster cfg (snd st ! j))" for i :: nat and st :: "rng \<times> Vec2 list"
  have "\<exists>st'. for_each [0..<length seeds] body (g, seeds) = Inr st' \<and> I (length seeds) st'"
  proof (rule for_upt_rule)
    show "I 0 (g, seeds)"
      using g by (simp add: I_def)
  next
    fix i st
    assume i: "i < length seeds" and inv: "I i st"
    obtain h ss where st: "st = (h, ss)"
      by (cases st)
    have h: "\<forall>n. 0 \<le>s h n" and len: "length ss = length seeds"
      and before: "\<forall>j<i. in_raster cfg (ss ! j)"
      using inv by (simp_all add: I_def st)
    from GenerateRandomSeeds_step [OF h cfg, of i ss] i len
    obtain h' px py where step: "body i st = Inr (h', ss[i := \<lparr>vx = px, vy = py\<rparr>])"
      "\<forall>n. 0 \<le>s h' n" "in_raster cfg \<lparr>vx = px, vy = py\<rparr>"
      unfolding body_def st by auto
    have "I (Suc i) (h', ss[i := \<lparr>vx = px, vy = py\<rparr>])"
      using step(2,3) len before i by (auto simp: I_def less_Suc_eq nth_list_update)
    with step(1) show "\<exists>t'. body i st = Inr t' \<and> I (Suc i) t'"
      by blast
  qed simp
  then obtain st' where st': "for_each [0..<length seeds] body (g, seeds) = Inr st'"
    "I (length seeds) st'"
    by blast
  have "GenerateRandomSeeds cfg (g, seeds) = Inr (fst st', snd st')"
    using st'(1) by (simp add: GenerateRandomSeeds_def body_def)
  moreover have "length (snd st') = length seeds" "\<forall>s\<in>set (snd st'). in_raster cfg s"
    using st'(2) by (auto simp: I_def in_set_conv_nth)
  ultimately show ?thesis
    by blast
qed


lemma in_raster_asserts:
  assumes "in_raster cfg s" "WIDTH cfg \<le> 65536" "HEIGHT cfg \<le> 65536"
  shows "0 \<le>s vx s \<and> vx s <s 65536 \<and> 0 \<le>s vy s \<and> vy s <s 65536"
  using assms by (simp add: in_raster_def word_sle_eq word_sless_alt)

text \<open>
  Claim C8. \<^verbatim>\<open>rand()\<close> returns no negative value. Then, for a raster with sides that are
  positive and fit \<^verbatim>\<open>int\<close>, \<^verbatim>\<open>GenerateRandomSeeds\<close> ends without an error and every seed of the
  array has \<open>0 \<le> x < WIDTH\<close> and \<open>0 \<le> y < HEIGHT\<close>. When the sides are at most 65536, as the
  1000 of the source, every such seed passes the four assertions of \<^verbatim>\<open>SeedToColor\<close>, and
  \<^verbatim>\<open>RenderVoronoi\<close> on these seeds returns an image: no assertion fails during rendering.
\<close>

theorem GenerateRandomSeeds_seeds_in_raster:
  assumes "\<forall>n. 0 \<le>s g n"
    and "0 < WIDTH cfg" "WIDTH cfg < 2 ^ 31" "0 < HEIGHT cfg" "HEIGHT cfg < 2 ^ 31"
  shows "\<exists>g' seeds'.
     GenerateRandomSeeds cfg (g, seeds) = Inr (g', seeds') \<and> length seeds' = length seeds \<and>
     (\<forall>s\<in>set seeds'. 0 \<le> sint (vx s) \<and> sint (vx s) < int (WIDTH cfg) \<and>
                      0 \<le> sint (vy s) \<and> sint (vy s) < int (HEIGHT cfg)) \<and>
     (WIDTH cfg \<le> 65536 \<and> HEIGHT cfg \<le> 65536 \<longrightarrow>
        (\<forall>s\<in>set seeds'. SeedToColor s = Inr (push_bit 16 (vx s) XOR vy s)) \<and>
        (seeds \<noteq> [] \<longrightarrow> (\<forall>img. \<exists>img'. RenderVoronoi cfg seeds' img = Inr img')))"
proof -
  from GenerateRandomSeeds_eq [OF assms, of seeds]
  obtain g' seeds' where gen: "GenerateRandomSeeds cfg (g, seeds) = Inr (g', seeds')"
    "length seeds' = length seeds" "\<forall>s\<in>set seeds'. in_raster cfg s"
    by blast
  have "(\<forall>s\<in>set seeds'. SeedToColor s = Inr (push_bit 16 (vx s) XOR vy s)) \<and>
      (seeds \<noteq> [] \<longrightarrow> (\<forall>img. \<exists>img'. RenderVoronoi cfg seeds' img = Inr img'))"
    if small: "WIDTH cfg \<le> 65536" "HEIGHT cfg \<le> 65536"
  proof -
    have asserts: "\<forall>s\<in>set seeds'. 0 \<le>s vx s \<and> vx s <s 65536 \<and> 0 \<le>s vy s \<and> vy s <s 65536"
      using gen(3) in_raster_asserts [OF _ small] by blast
    then have "\<forall>s\<in>set seeds'. SeedToColor s = Inr (push_bit 16 (vx s) XOR vy s)"
      by (auto intro: SeedToColor_ok)
    moreover have "\<exists>img'. RenderVoronoi cfg seeds' img = Inr img'" if "seeds \<noteq> []" for img
    proof -
      have "seeds' \<noteq> []"
        using that gen(2) by auto
      then show ?thesis
        by (simp add: RenderVoronoi_winner [OF _ asserts])
    qed
    ultimately show ?thesis
      by blast
  qed
  with gen show ?thesis
    unfolding in_raster_def by blast
qed

theorem GenerateRandomSeeds_seeds_in_raster_witness:
  "\<exists>g' seeds'.
     GenerateRandomSeeds source_config (\<lambda>n. 12345, replicate 50 \<lparr>vx = 0, vy = 0\<rparr>) = Inr (g', seeds') \<and>
     length seeds' = 50 \<and>
     (\<exists>img'. RenderVoronoi source_config seeds' (\<lambda>r c. COLOR_BACKGROUND) = Inr img')"
proof -
  have "\<forall>n :: nat. 0 \<le>s (12345 :: c_int)"
    and "0 < WIDTH source_config" "WIDTH source_config < 2 ^ 31"
    and "0 < HEIGHT source_config" "HEIGHT source_config < 2 ^ 31"
    by (simp_all add: source_config_def word_sle_eq)
  from GenerateRandomSeeds_seeds_in_raster [OF this, of "replicate 50 \<lparr>vx = 0, vy = 0\<rparr>"]
  obtain g' seeds' where *:
    "GenerateRandomSeeds source_config (\<lambda>n. 12345, replicate 50 \<lparr>vx = 0, vy = 0\<rparr>) = Inr (g', seeds')"
    "length seeds' = length (replicate 50 \<lparr>vx = 0 :: c_int, vy = 0 :: c_int\<rparr>)"
    "WIDTH source_config \<le> 65536 \<and> HEIGHT source_config \<le> 65536 \<longrightarrow>
       (replicate 50 \<lparr>vx = 0 :: c_int, vy = 0 :: c_int\<rparr> \<noteq> [] \<longrightarrow>
          (\<forall>img. \<exists>img'. RenderVoronoi source_config seeds' img = Inr img'))"
    by blast
  from *(3) have "\<exists>img'. RenderVoronoi source_config seeds' (\<lambda>r c. COLOR_BACKGROUND) = Inr img'"
    by (simp add: source_config_def)
  with *(1,2) show ?thesis
    by auto
qed

section \<open>The background colour\<close>

text \<open>
  The low 16 bits of the colour of a seed are its \<^verbatim>\<open>y\<close>; colours that differ there differ, and
  so do their three bytes in the file.
\<close>

lemma seed_color_low_bits:
  fixes a b :: c_int
  assumes "0 \<le>s b" "b <s 65536"
  shows "take_bit 16 (push_bit 16 a XOR b) = b"
proof -
  have "take_bit 16 (push_bit 16 a XOR b) = take_bit 16 b"
    by (rule bit_word_eqI) (auto simp: bit_simps)
  then show ?thesis
    using assms by (simp add: take_bit_16_id)
qed

lemma low_bits_differ:
  fixes c d :: Color
  assumes "take_bit 16 c \<noteq> take_bit 16 d"
  shows "c \<noteq> d" "pixel_bytes c \<noteq> pixel_bytes d"
proof -
  show "c \<noteq> d"
    using assms by auto
  show "pixel_bytes c \<noteq> pixel_bytes d"
  proof
    assume "pixel_bytes c = pixel_bytes d"
    then have "reassemble (pixel_bytes c) = reassemble (pixel_bytes d)"
      by simp
    then have "take_bit 16 (take_bit 24 c) = take_bit 16 (take_bit 24 d)"
      by (simp add: reassemble_pixel_bytes)
    with assms show False
      by simp
  qed
qed

text \<open>
  The colour of a pixel of the buffer after \<^verbatim>\<open>RenderVoronoi\<close> and after \<^verbatim>\<open>RenderSeedMarkers\<close>,
  for seeds inside the raster.
\<close>

lemma rendered_pixel:
  assumes "seeds \<noteq> []"
    and "\<forall>s\<in>set seeds. in_raster cfg s"
    and "WIDTH cfg \<le> 65536" "HEIGHT cfg \<le> 65536"
    and "y < HEIGHT cfg" "x < WIDTH cfg"
  shows "\<exists>k c. k < length seeds \<and> SeedToColor (seeds ! k) = Inr c \<and>
     (\<forall>img. \<exists>img1 img3.
        RenderVoronoi cfg seeds img = Inr img1 \<and> img1 y x = c \<and>
        RenderSeedMarkers cfg seeds img1 = Inr img3 \<and>
        (img3 y x = c \<or> img3 y x = SEED_MARKER_COLOR)) \<and>
     (HEIGHT cfg \<le> 5911 \<longrightarrow> take_bit 16 c \<noteq> take_bit 16 COLOR_BACKGROUND)"
proof -
  define k where "k = winner seeds y x"
  define c where "c = push_bit 16 (vx (seeds ! k)) XOR vy (seeds ! k)"
  define paint :: "image \<Rightarrow> image" where "paint = (\<lambda>t r c.
      if r < HEIGHT cfg \<and> c < WIDTH cfg
      then push_bit 16 (vx (seeds ! winner seeds r c)) XOR vy (seeds ! winner seeds r c)
      else t r c)"
  define mark :: "image \<Rightarrow> image" where "mark = (\<lambda>t r c.
      if \<exists>i<length seeds. painted cfg (seeds ! i) SEED_MARKER_RADIUS r c
      then SEED_MARKER_COLOR else t r c)"
  have asserts: "\<forall>s\<in>set seeds. 0 \<le>s vx s \<and> vx s <s 65536 \<and> 0 \<le>s vy s \<and> vy s <s 65536"
    using in_raster_asserts [OF _ assms(3,4)] assms(2) by blast
  have render: "RenderVoronoi cfg seeds t = Inr (paint t)" for t
    unfolding paint_def by (rule RenderVoronoi_winner [OF assms(1) asserts])
  have pixel: "paint t y x = c" for t
    using assms(5,6) by (simp add: paint_def c_def k_def)
  have markers: "RenderSeedMarkers cfg seeds t = Inr (mark t)" for t
    by (simp add: RenderSeedMarkers_eq mark_def)
  have marked: "mark (paint t) y x = c \<or> mark (paint t) y x = SEED_MARKER_COLOR" for t
    by (simp add: mark_def pixel)
  note closest = closest_seed_winner [OF assms(1), of x y]
  note win = pixel_color_winner [OF assms(1) asserts closest]
  have k: "k < length seeds" and color: "SeedToColor (seeds ! k) = Inr c"
    using win(1,3) by (simp_all add: k_def c_def)
  have "take_bit 16 c \<noteq> take_bit 16 COLOR_BACKGROUND" if "HEIGHT cfg \<le> 5911"
  proof -
    have "seeds ! k \<in> set seeds"
      using k by simp
    then have seed: "0 \<le>s vy (seeds ! k)" "vy (seeds ! k) <s 65536" "sint (vy (seeds ! k)) < 5911"
      using asserts assms(2) that by (auto simp: in_raster_def)
    have "take_bit 16 c = vy (seeds ! k)"
      unfolding c_def using seed(1,2) by (rule seed_color_low_bits)
    moreover have "take_bit 16 COLOR_BACKGROUND = (5911 :: c_int)"
      by (simp add: COLOR_BACKGROUND_def)
    moreover have "vy (seeds ! k) \<noteq> 5911"
      using seed(3) by auto
    ultimately show ?thesis
      by simp
  qed
  with k color render pixel markers marked show ?thesis
    by (rule_tac x = k in exI, rule_tac x = c in exI) blast
qed

lemma marker_not_background:
  "take_bit 16 SEED_MARKER_COLOR \<noteq> take_bit 16 COLOR_BACKGROUND"
  by (simp add: SEED_MARKER_COLOR_def COLOR_BLACK_def COLOR_BACKGROUND_def)

text \<open>
  A seed at \<^verbatim>\<open>(0xFF20, 0x1717)\<close> passes the assertions and has the background colour as its
  colour; it lies outside every raster of height at most 5911, such as the one of the source.
\<close>

lemma seed_with_background_color:
  "SeedToColor \<lparr>vx = 0xFF20, vy = 0x1717\<rparr> = Inr COLOR_BACKGROUND"
  by (simp add: SeedToColor_def COLOR_BACKGROUND_def word_sle_eq word_sless_alt)

text \<open>
  Claim C10. \<^verbatim>\<open>RenderVoronoi\<close> stores a colour into every pixel of the buffer, whatever the
  buffer held before: started on two different buffers it leaves the same colour in the
  pixel, the colour that \<^verbatim>\<open>SeedToColor\<close> gives for a seed of the array, and after
  \<^verbatim>\<open>RenderSeedMarkers\<close> the pixel holds this colour or the marker colour. The seeds are
  inside the raster, as \<^verbatim>\<open>GenerateRandomSeeds\<close> leaves them. For a raster of height at most
  5911 (the source has 1000) neither colour is the background colour, and the three bytes
  of the pixel in the file are not those of the background colour.
\<close>

theorem RenderVoronoi_overwrites_background:
  assumes "seeds \<noteq> []"
    and "\<forall>s\<in>set seeds. in_raster cfg s"
    and "WIDTH cfg \<le> 65536" "HEIGHT cfg \<le> 65536"
    and "y < HEIGHT cfg" "x < WIDTH cfg"
  shows "\<exists>img1 img2 img3 k.
     RenderVoronoi cfg seeds img = Inr img1 \<and> RenderVoronoi cfg seeds other = Inr img2 \<and>
     img1 y x = img2 y x \<and>
     k < length seeds \<and> SeedToColor (seeds ! k) = Inr (img1 y x) \<and>
     RenderSeedMarkers cfg seeds img1 = Inr img3 \<and>
     (img3 y x = img1 y x \<or> img3 y x = SEED_MARKER_COLOR) \<and>
     (HEIGHT cfg \<le> 5911 \<longrightarrow>
        img1 y x \<noteq> COLOR_BACKGROUND \<and> img3 y x \<noteq> COLOR_BACKGROUND \<and>
        pixel_bytes (img3 y x) \<noteq> pixel_bytes COLOR_BACKGROUND)"
proof -
  from rendered_pixel [OF assms]
  obtain k c where k: "k < length seeds" "SeedToColor (seeds ! k) = Inr c"
    and all: "\<forall>img. \<exists>img1 img3.
        RenderVoronoi cfg seeds img = Inr img1 \<and> img1 y x = c \<and>
        RenderSeedMarkers cfg seeds img1 = Inr img3 \<and>
        (img3 y x = c \<or> img3 y x = SEED_MARKER_COLOR)"
    and low: "HEIGHT cfg \<le> 5911 \<longrightarrow> take_bit 16 c \<noteq> take_bit 16 COLOR_BACKGROUND"
    by blast
  from all obtain img1 img3 where 1: "RenderVoronoi cfg seeds img = Inr img1" "img1 y x = c"
    "RenderSeedMarkers cfg seeds img1 = Inr img3" "img3 y x = c \<or> img3 y x = SEED_MARKER_COLOR"
    by blast
  from all obtain img2 where 2: "RenderVoronoi cfg seeds other = Inr img2" "img2 y x = c"
    by blast
  have "img1 y x \<noteq> COLOR_BACKGROUND \<and> img3 y x \<noteq> COLOR_BACKGROUND \<and>
      pixel_bytes (img3 y x) \<noteq> pixel_bytes COLOR_BACKGROUND" if "HEIGHT cfg \<le> 5911"
  proof -
    have c: "take_bit 16 c \<noteq> take_bit 16 COLOR_BACKGROUND"
      using low that by simp
    then have "take_bit 16 (img3 y x) \<noteq> take_bit 16 COLOR_BACKGROUND"
      using 1(4) marker_not_background by auto
    then show ?thesis
      using low_bits_differ [of "img3 y x" COLOR_BACKGROUND] low_bits_differ(1) [OF c] 1(2)
      by simp
  qed
  with k 1 2 show ?thesis
    by (rule_tac x = img1 in exI, rule_tac x = img2 in exI, rule_tac x = img3 in exI,
        rule_tac x = k in exI) simp
qed

theorem RenderVoronoi_overwrites_background_witness:
  "\<exists>img0 img1 img3.
     FillImage source_config COLOR_BACKGROUND (\<lambda>r c. 0) = Inr img0 \<and>
     img0 999 999 = COLOR_BACKGROUND \<and>
     RenderVoronoi source_config scenario_seeds img0 = Inr img1 \<and>
     img1 999 999 \<noteq> COLOR_BACKGROUND \<and>
     RenderSeedMarkers source_config scenario_seeds img1 = Inr img3 \<and>
     img3 999 999 \<noteq> COLOR_BACKGROUND \<and>
     pixel_bytes (img3 999 999) \<noteq> pixel_bytes COLOR_BACKGROUND"
proof -
  define img0 :: image where "img0 = (\<lambda>r c.
      if r < HEIGHT source_config \<and> c < WIDTH source_config then COLOR_BACKGROUND else 0)"
  have fill: "FillImage source_config COLOR_BACKGROUND (\<lambda>r c. 0) = Inr img0"
    unfolding img0_def by (rule FillImage_square_eq) (simp add: source_config_def)
  have bg: "img0 999 999 = COLOR_BACKGROUND"
    by (simp add: img0_def source_config_def)
  have low: "HEIGHT source_config \<le> 5911"
    by (simp add: source_config_def)
  have "scenario_seeds \<noteq> []"
    and "\<forall>s\<in>set scenario_seeds. in_raster source_config s"
    and "WIDTH source_config \<le> 65536" "HEIGHT source_config \<le> 65536"
    and "999 < HEIGHT source_config" "999 < WIDTH source_config"
    by (simp_all add: scenario_seeds_def source_config_def in_raster_def)
  from RenderVoronoi_overwrites_background [OF this, of img0 img0] low
  obtain img1 img3 where
    "RenderVoronoi source_config scenario_seeds img0 = Inr img1"
    "img1 999 999 \<noteq> COLOR_BACKGROUND"
    "RenderSeedMarkers source_config scenario_seeds img1 = Inr img3"
    "img3 999 999 \<noteq> COLOR_BACKGROUND"
    "pixel_bytes (img3 999 999) \<noteq> pixel_bytes COLOR_BACKGROUND"
    by blast
  with fill bg show ?thesis
    by blast
qed


section \<open>\<^verbatim>\<open>main\<close>\<close>

text \<open>
  When \<^verbatim>\<open>rand()\<close> returns no negative value, the array of seeds is not empty and the raster
  is a square of side at most 65536, the four calls of \<^verbatim>\<open>main\<close> before \<^verbatim>\<open>SaveImageAsPPM\<close>
  return, and \<^verbatim>\<open>main\<close> ends as \<^verbatim>\<open>SaveImageAsPPM\<close> does on the image they leave.
\<close>

lemma main_reaches_save:
  assumes "\<forall>n. 0 \<le>s g n"
    and "seeds \<noteq> []"
    and "WIDTH cfg = HEIGHT cfg" "0 < WIDTH cfg" "WIDTH cfg \<le> 65536"
  shows "\<exists>img1 g1 seeds1 img2 img3.
     FillImage cfg COLOR_BACKGROUND img = Inr img1 \<and>
     GenerateRandomSeeds cfg (g, seeds) = Inr (g1, seeds1) \<and>
     seeds1 \<noteq> [] \<and> (\<forall>s\<in>set seeds1. in_raster cfg s) \<and>
     RenderVoronoi cfg seeds1 img1 = Inr img2 \<and>
     RenderSeedMarkers cfg seeds1 img2 = Inr img3 \<and>
     (\<forall>file oserror. main cfg g img seeds file oserror =
        SaveImageAsPPM cfg img3 OUTPUT_FILE_PATH file oserror)"
proof -
  have sides: "0 < WIDTH cfg" "WIDTH cfg < 2 ^ 31" "0 < HEIGHT cfg" "HEIGHT cfg < 2 ^ 31"
    "WIDTH cfg \<le> 65536" "HEIGHT cfg \<le> 65536"
    using assms(3-5) by simp_all
  obtain img1 where fill: "FillImage cfg COLOR_BACKGROUND img = Inr img1"
    using FillImage_square_eq [OF assms(3)] by blast
  from GenerateRandomSeeds_eq [OF assms(1) sides(1-4), of seeds]
  obtain g1 seeds1 where gen: "GenerateRandomSeeds cfg (g, seeds) = Inr (g1, seeds1)"
    "length seeds1 = length seeds" "\<forall>s\<in>set seeds1. in_raster cfg s"
    by blast
  have nonempty: "seeds1 \<noteq> []"
    using gen(2) assms(2) by auto
  have asserts: "\<forall>s\<in>set seeds1. 0 \<le>s vx s \<and> vx s <s 65536 \<and> 0 \<le>s vy s \<and> vy s <s 65536"
    using gen(3) in_raster_asserts [OF _ sides(5,6)] by blast
  obtain img2 where render: "RenderVoronoi cfg seeds1 img1 = Inr img2"
    using RenderVoronoi_winner [OF nonempty asserts] by blast
  obtain img3 where markers: "RenderSeedMarkers cfg seeds1 img2 = Inr img3"
    using RenderSeedMarkers_eq by blast
  have "main cfg g img seeds strm oserror = SaveImageAsPPM cfg img3 OUTPUT_FILE_PATH strm oserror"
    for strm oserror
    by (simp add: main_def fill gen(1) render markers)
  with fill gen(1,3) nonempty render markers show ?thesis
    by blast
qed

text \<open>With \<^verbatim>\<open>fopen\<close> returning \<open>NULL\<close>, the program ends in the first \<^verbatim>\<open>fprintf\<close>.\<close>

lemma main_fopen_failure:
  assumes "\<forall>n. 0 \<le>s g n"
    and "seeds \<noteq> []"
    and "WIDTH cfg = HEIGHT cfg" "0 < WIDTH cfg" "WIDTH cfg \<le> 65536"
  shows "main cfg g img seeds NULL oserror = Inl NullStream"
  using main_reaches_save [OF assms, of img]
  by (auto simp: SaveImageAsPPM_def fprintf_def)

text \<open>
  With the file opened, the program writes the header and the pixels; for a side of at most
  5911 no pixel of the file has the three bytes of the background colour.
\<close>

lemma main_writes_file:
  assumes "\<forall>n. 0 \<le>s g n"
    and "seeds \<noteq> []"
    and "WIDTH cfg = HEIGHT cfg" "0 < WIDTH cfg" "WIDTH cfg \<le> 5911"
  shows "\<exists>img3. main cfg g img seeds (Open []) oserror = Inr (ppm_header cfg @ pixel_data cfg img3) \<and>
     (\<forall>y<HEIGHT cfg. \<forall>x<WIDTH cfg. pixel_bytes (img3 y x) \<noteq> pixel_bytes COLOR_BACKGROUND)"
proof -
  have sides: "WIDTH cfg \<le> 65536" "HEIGHT cfg \<le> 65536" "HEIGHT cfg \<le> 5911"
    using assms(3,5) by simp_all
  from main_reaches_save [OF assms(1-4) sides(1), of img]
  obtain img1 seeds1 img2 img3 where run: "seeds1 \<noteq> []" "\<forall>s\<in>set seeds1. in_raster cfg s"
    "RenderVoronoi cfg seeds1 img1 = Inr img2" "RenderSeedMarkers cfg seeds1 img2 = Inr img3"
    "\<forall>file oserror. main cfg g img seeds file oserror =
        SaveImageAsPPM cfg img3 OUTPUT_FILE_PATH file oserror"
    by blast
  have "pixel_bytes (img3 y x) \<noteq> pixel_bytes COLOR_BACKGROUND"
    if "y < HEIGHT cfg" "x < WIDTH cfg" for y x
  proof -
    from rendered_pixel [OF run(1,2) sides(1,2) that] sides(3)
    obtain c where c: "\<forall>img. \<exists>img1 img3.
        RenderVoronoi cfg seeds1 img = Inr img1 \<and> img1 y x = c \<and>
        RenderSeedMarkers cfg seeds1 img1 = Inr img3 \<and>
        (img3 y x = c \<or> img3 y x = SEED_MARKER_COLOR)"
      "take_bit 16 c \<noteq> take_bit 16 COLOR_BACKGROUND"
      by blast
    from c(1) [rule_format, of img1] run(3,4)
    have "img3 y x = c \<or> img3 y x = SEED_MARKER_COLOR"
      by auto
    then have "take_bit 16 (img3 y x) \<noteq> take_bit 16 COLOR_BACKGROUND"
      using c(2) marker_not_background by auto
    then show ?thesis
      by (rule low_bits_differ)
  qed
  moreover have "main cfg g img seeds (Open []) oserror = Inr (ppm_header cfg @ pixel_data cfg img3)"
    using run(5) by (simp add: SaveImageAsPPM_Open)
  ultimately show ?thesis
    by blast
qed

text \<open>The raster of the source, with its array of 50 seeds.\<close>

lemma main_source:
  assumes "\<forall>n. 0 \<le>s g n" and "length seeds = 50"
  shows "main source_config g img seeds NULL oserror = Inl NullStream"
    and "\<exists>img3. main source_config g img seeds (Open []) oserror =
         Inr (ppm_header source_config @ pixel_data source_config img3) \<and>
       (\<forall>y<1000. \<forall>x<1000. pixel_bytes (img3 y x) \<noteq> pixel_bytes COLOR_BACKGROUND)"
proof -
  have seeds: "seeds \<noteq> []"
    using assms(2) by auto
  have sides: "WIDTH source_config = HEIGHT source_config" "0 < WIDTH source_config"
    "WIDTH source_config \<le> 65536" "WIDTH source_config \<le> 5911"
    by (simp_all add: source_config_def)
  show "main source_config g img seeds NULL oserror = Inl NullStream"
    by (rule main_fopen_failure [OF assms(1) seeds sides(1-3)])
  show "\<exists>img3. main source_config g img seeds (Open []) oserror =
         Inr (ppm_header source_config @ pixel_data source_config img3) \<and>
       (\<forall>y<1000. \<forall>x<1000. pixel_bytes (img3 y x) \<noteq> pixel_bytes COLOR_BACKGROUND)"
    using main_writes_file [OF assms(1) seeds sides(1,2,4), of img oserror]
    by (simp add: source_config_def)
qed

end
